theory Spec2Isabelle
  imports Main
begin

section \<open>Texts, errors and calendar dates\<close>

text \<open>
  A Python \<open>str\<close> is a sequence of Unicode code points; it is modelled as a list of
  natural numbers (the code points), so that \<open>length\<close>, slicing and indexing count what
  Python counts.
\<close>

type_synonym ustr = "nat list"

text \<open>The exceptions the program can meet in the library calls it makes.\<close>

datatype error = ValueError | OverflowError | TypeError | AttributeError

text \<open>
  \<open>datetime.date\<close>: a (year, month, day) triple of the proleptic Gregorian calendar.
  The constructor \<open>date(year, month, day)\<close> of CPython converts its arguments to C
  \<open>int\<close> first (OverflowError outside of the 32-bit range) and then checks
  \<open>1 \<le> year \<le> 9999\<close>, \<open>1 \<le> month \<le> 12\<close>, \<open>1 \<le> day \<le> days_in_month\<close>
  (ValueError).
\<close>

datatype date = Date (year: int) (month: int) (day: int)

definition is_leap :: "int \<Rightarrow> bool" where
  "is_leap y = (y mod 4 = 0 \<and> (y mod 100 \<noteq> 0 \<or> y mod 400 = 0))"

definition days_in_month :: "int \<Rightarrow> int \<Rightarrow> int" where
  "days_in_month y m =
     (if m = 2 then (if is_leap y then 29 else 28)
      else if m = 4 \<or> m = 6 \<or> m = 9 \<or> m = 11 then 30 else 31)"

definition days_before_year :: "int \<Rightarrow> int" where
  "days_before_year y = (y - 1) * 365 + (y - 1) div 4 - (y - 1) div 100 + (y - 1) div 400"

definition days_before_month :: "int \<Rightarrow> int \<Rightarrow> int" where
  "days_before_month y m =
     (if m = 1 then 0 else if m = 2 then 31 else
        (if m = 3 then 59 else if m = 4 then 90 else if m = 5 then 120
         else if m = 6 then 151 else if m = 7 then 181 else if m = 8 then 212
         else if m = 9 then 243 else if m = 10 then 273 else if m = 11 then 304
         else 334) + (if is_leap y then 1 else 0))"

definition c_int :: "int \<Rightarrow> bool" where
  "c_int x = (- 2147483648 \<le> x \<and> x \<le> 2147483647)"

definition valid_ymd :: "int \<Rightarrow> int \<Rightarrow> int \<Rightarrow> bool" where
  "valid_ymd y m d =
     (1 \<le> y \<and> y \<le> 9999 \<and> 1 \<le> m \<and> m \<le> 12 \<and> 1 \<le> d \<and> d \<le> days_in_month y m)"

definition date_new :: "int \<Rightarrow> int \<Rightarrow> int \<Rightarrow> error + date" where
  "date_new y m d =
     (if \<not> (c_int y \<and> c_int m \<and> c_int d) then Inl OverflowError
      else if valid_ymd y m d then Inr (Date y m d)
      else Inl ValueError)"

text \<open>\<open>d.toordinal()\<close>: 1 for 0001-01-01.\<close>

definition toordinal :: "date \<Rightarrow> int" where
  "toordinal dt = days_before_year (year dt) + days_before_month (year dt) (month dt) + day dt"

text \<open>\<open>d.weekday()\<close>: Monday is 0, Sunday is 6.\<close>

definition weekday :: "date \<Rightarrow> int" where
  "weekday dt = (toordinal dt + 6) mod 7"

text \<open>\<open>a < b\<close> on dates compares (year, month, day).\<close>

definition date_lt :: "date \<Rightarrow> date \<Rightarrow> bool" where
  "date_lt a b =
     (year a < year b \<or> (year a = year b \<and>
        (month a < month b \<or> (month a = month b \<and> day a < day b))))"

text \<open>\<open>(a - b).days\<close>.\<close>

definition days_between :: "date \<Rightarrow> date \<Rightarrow> int" where
  "days_between a b = toordinal a - toordinal b"

text \<open>
  \<open>d + timedelta(days=1)\<close>: the next calendar day; OverflowError past
  \<open>date.max\<close> = 9999-12-31. (Lemma \<open>toordinal_add_day\<close> below: the ordinal grows by one.)
\<close>

definition date_add_day :: "date \<Rightarrow> error + date" where
  "date_add_day dt =
     (if day dt < days_in_month (year dt) (month dt)
        then Inr (Date (year dt) (month dt) (day dt + 1))
      else if month dt < 12 then Inr (Date (year dt) (month dt + 1) 1)
      else if year dt < 9999 then Inr (Date (year dt + 1) 1 1)
      else Inl OverflowError)"

section \<open>The calendar builder\<close>

text \<open>The two labels, the Russian words for "working" (rabochiy) and "non-working"
  (nerabochiy), by code points.\<close>

definition WORKING :: ustr where
  "WORKING = [1088, 1072, 1073, 1086, 1095, 1080, 1081]"

definition NON_WORKING :: ustr where
  "NON_WORKING = [1085, 1077, 1088, 1072, 1073, 1086, 1095, 1080, 1081]"

text \<open>One day's label, as the loop body computes it.\<close>

definition day_label :: "date set \<Rightarrow> date \<Rightarrow> ustr" where
  "day_label nonworking_set d =
     (let is_weekend = (weekday d \<ge> 5)
      in if is_weekend \<or> d \<in> nonworking_set then NON_WORKING else WORKING)"

text \<open>
  The \<open>while d < end\<close> loop of \<open>build_year_map\<close>. The loop is not structurally
  recursive, so it is a partial function in the option monad: \<open>None\<close> would be a loop
  that never ends, \<open>Some (Inl e)\<close> an exception, \<open>Some (Inr m)\<close> the returned map.
\<close>

partial_function (option) year_loop ::
  "date \<Rightarrow> date \<Rightarrow> date set \<Rightarrow> date \<Rightarrow> (int \<rightharpoonup> ustr) \<Rightarrow> (error + (int \<rightharpoonup> ustr)) option"
where
  "year_loop start end nonworking_set d result =
     (if date_lt d end then
        (let doy = days_between d start + 1;
             result' = result(doy \<mapsto> day_label nonworking_set d)
         in case date_add_day d of
              Inl e \<Rightarrow> Some (Inl e)
            | Inr d' \<Rightarrow> year_loop start end nonworking_set d' result')
      else Some (Inr result))"

definition build_year_map :: "int \<Rightarrow> date set \<Rightarrow> (error + (int \<rightharpoonup> ustr)) option" where
  "build_year_map y nonworking =
     (case date_new y 1 1 of
        Inl e \<Rightarrow> Some (Inl e)
      | Inr start \<Rightarrow>
          (case date_new (y + 1) 1 1 of
             Inl e \<Rightarrow> Some (Inl e)
           | Inr end \<Rightarrow> year_loop start end nonworking start Map.empty))"

text \<open>Days in a year.\<close>

definition year_days :: "int \<Rightarrow> int" where
  "year_days y = (if is_leap y then 366 else 365)"

text \<open>Dates that the constructor accepts, and the day of the year of a date.\<close>

definition valid_date :: "date \<Rightarrow> bool" where
  "valid_date x = valid_ymd (year x) (month x) (day x)"

definition yday :: "date \<Rightarrow> int" where
  "yday x = days_before_month (year x) (month x) + day x"


section \<open>Character data\<close>

text \<open>
  The character classes of \<open>re\<close> and the \<open>str\<close> methods consult the interpreter's
  Unicode tables. The tables below cover Basic Latin (U+0000 to U+007F) and Cyrillic
  (U+0400 to U+052F), and all Unicode white space; every other code point is taken as a
  caseless symbol that is neither a digit nor a word character. On the covered code
  points the tables are those of the interpreter; outside they are not (an accented Latin
  letter, a Greek letter or a superscript digit is a word character for \<open>re\<close>, a digit
  of another script is a decimal digit for \<open>re\<close> and for \<open>int\<close>, and a few Cyrillic
  letters of other blocks match a Russian letter when case is ignored). What is stated
  below about the matches found in an arbitrary text is therefore stated for covered text.
\<close>

definition is_decimal :: "nat \<Rightarrow> bool" where
  "is_decimal c = (48 \<le> c \<and> c \<le> 57)"

definition is_space :: "nat \<Rightarrow> bool" where
  "is_space c =
     ((9 \<le> c \<and> c \<le> 13) \<or> (28 \<le> c \<and> c \<le> 32) \<or> c = 133 \<or> c = 160 \<or> c = 5760
      \<or> (8192 \<le> c \<and> c \<le> 8202) \<or> c = 8232 \<or> c = 8233 \<or> c = 8239 \<or> c = 8287
      \<or> c = 12288)"

definition is_alnum :: "nat \<Rightarrow> bool" where
  "is_alnum c =
     (is_decimal c \<or> (65 \<le> c \<and> c \<le> 90) \<or> (97 \<le> c \<and> c \<le> 122)
      \<or> (1024 \<le> c \<and> c \<le> 1153) \<or> (1162 \<le> c \<and> c \<le> 1327))"

text \<open>\<open>\w\<close>: alphanumeric or the underscore.\<close>

definition is_word :: "nat \<Rightarrow> bool" where
  "is_word c = (is_alnum c \<or> c = 95)"

text \<open>Simple case mapping: A-Z, and the Cyrillic pairs.\<close>

definition lower_cp :: "nat \<Rightarrow> nat" where
  "lower_cp c =
     (if 65 \<le> c \<and> c \<le> 90 then c + 32
      else if 1040 \<le> c \<and> c \<le> 1071 then c + 32
      else if 1024 \<le> c \<and> c \<le> 1039 then c + 80
      else if c = 1216 then 1231
      else if (1120 \<le> c \<and> c \<le> 1153 \<or> 1162 \<le> c \<and> c \<le> 1215 \<or> 1232 \<le> c \<and> c \<le> 1327)
              \<and> even c then c + 1
      else if 1217 \<le> c \<and> c \<le> 1230 \<and> odd c then c + 1
      else c)"

definition upper_cp :: "nat \<Rightarrow> nat" where
  "upper_cp c =
     (if 97 \<le> c \<and> c \<le> 122 then c - 32
      else if 1072 \<le> c \<and> c \<le> 1103 then c - 32
      else if 1104 \<le> c \<and> c \<le> 1119 then c - 80
      else if c = 1231 then 1216
      else if (1120 \<le> c \<and> c \<le> 1153 \<or> 1162 \<le> c \<and> c \<le> 1215 \<or> 1232 \<le> c \<and> c \<le> 1327)
              \<and> odd c then c - 1
      else if 1217 \<le> c \<and> c \<le> 1230 \<and> even c then c - 1
      else c)"

text \<open>The covered code points.\<close>

definition covered :: "nat \<Rightarrow> bool" where
  "covered c = (c < 128 \<or> (1024 \<le> c \<and> c \<le> 1327) \<or> is_space c)"

section \<open>String operations\<close>

text \<open>\<open>s[i:j]\<close> for \<open>0 \<le> i\<close>: both ends are clamped to the length.\<close>

definition slice :: "ustr \<Rightarrow> nat \<Rightarrow> nat \<Rightarrow> ustr" where
  "slice s i j = take (j - i) (drop i s)"

text \<open>\<open>s.lower()\<close>.\<close>

definition str_lower :: "ustr \<Rightarrow> ustr" where
  "str_lower s = map lower_cp s"

text \<open>\<open>s.strip(chars)\<close> and \<open>s.strip()\<close>.\<close>

definition strip_chars :: "(nat \<Rightarrow> bool) \<Rightarrow> ustr \<Rightarrow> ustr" where
  "strip_chars p s = rev (dropWhile p (rev (dropWhile p s)))"

definition str_strip :: "ustr \<Rightarrow> ustr" where
  "str_strip s = strip_chars is_space s"

text \<open>\<open>s.isdigit()\<close>.\<close>

definition str_isdigit :: "ustr \<Rightarrow> bool" where
  "str_isdigit s = (s \<noteq> [] \<and> list_all is_decimal s)"

text \<open>\<open>key in s\<close>: \<open>key\<close> occurs in \<open>s\<close> as a contiguous substring.\<close>

fun starts_with :: "ustr \<Rightarrow> ustr \<Rightarrow> bool" where
  "starts_with s [] = True"
| "starts_with [] (k # ks) = False"
| "starts_with (c # cs) (k # ks) = (c = k \<and> starts_with cs ks)"

fun str_contains :: "ustr \<Rightarrow> ustr \<Rightarrow> bool" where
  "str_contains [] key = (key = [])"
| "str_contains (c # cs) key = (starts_with (c # cs) key \<or> str_contains cs key)"

text \<open>\<open>s.replace(old, new)\<close> for a non-empty \<open>old\<close>: left to right, without overlaps.\<close>

fun str_replace :: "ustr \<Rightarrow> ustr \<Rightarrow> ustr \<Rightarrow> ustr" where
  "str_replace old new [] = []"
| "str_replace old new (c # cs) =
     (if starts_with (c # cs) old
      then new @ str_replace old new (drop (length old - 1) cs)
      else c # str_replace old new cs)"

text \<open>\<open>s.split(sep)\<close> for a separator of one code point.\<close>

fun str_split :: "nat \<Rightarrow> ustr \<Rightarrow> ustr list" where
  "str_split sep [] = [[]]"
| "str_split sep (c # cs) =
     (case str_split sep cs of
        [] \<Rightarrow> [[]]
      | w # ws \<Rightarrow> if c = sep then [] # w # ws else (c # w) # ws)"

text \<open>
  \<open>int(s)\<close> and \<open>str(n)\<close>. The program calls \<open>int\<close> on what a group of the pattern
  captured or on a token that passed \<open>isdigit\<close>; a missing group is \<open>None\<close>, on which
  \<open>int\<close> raises TypeError. A string that is not all decimal digits is ValueError here.
\<close>

definition digits_value :: "ustr \<Rightarrow> int" where
  "digits_value s = foldl (\<lambda>a c. 10 * a + int (c - 48)) 0 s"

definition py_int :: "ustr option \<Rightarrow> error + int" where
  "py_int s =
     (case s of
        None \<Rightarrow> Inl TypeError
      | Some t \<Rightarrow> if str_isdigit t then Inr (digits_value t) else Inl ValueError)"

fun nat_digits :: "nat \<Rightarrow> ustr" where
  "nat_digits n = (if n < 10 then [48 + n] else nat_digits (n div 10) @ [48 + n mod 10])"

definition py_str :: "int \<Rightarrow> ustr" where
  "py_str i = (if i < 0 then 45 # nat_digits (nat (- i)) else nat_digits (nat i))"

section \<open>Regular expressions\<close>

text \<open>
  The patterns of the program use literals, character classes, sequences, alternatives,
  greedy and lazy counted repetition, named groups, \<open>\b\<close> and one negative look-behind
  on a character class. The syntax tree below has one constructor for each.
\<close>

datatype cls = CChar nat | CRange nat nat | CDigit | CWord | CSpace | CAny

datatype regex =
    Chars "cls list"
  | Eps
  | Seq regex regex
  | Alt regex regex
  | Rep nat "nat option" bool regex
  | Grp string regex
  | WordB
  | NotBehind "cls list"

text \<open>A compiled pattern: the flags \<open>re.IGNORECASE\<close> and \<open>re.DOTALL\<close>, and the tree.\<close>

record pattern =
  ignorecase :: bool
  dotall :: bool
  tree :: regex

definition seqs :: "regex list \<Rightarrow> regex" where
  "seqs rs = foldr Seq rs Eps"

definition lit :: "ustr \<Rightarrow> regex" where
  "lit s = seqs (map (\<lambda>c. Chars [CChar c]) s)"

text \<open>
  Whether a code point is in a class. Under IGNORECASE a literal matches the code points
  with the same lower case, and a range those whose lower or upper case is in the range;
  \<open>.\<close> matches everything but a line feed unless DOTALL is set.
\<close>

fun cls_match :: "bool \<Rightarrow> bool \<Rightarrow> cls \<Rightarrow> nat \<Rightarrow> bool" where
  "cls_match ic da (CChar c) x = (x = c \<or> (ic \<and> lower_cp x = lower_cp c))"
| "cls_match ic da (CRange lo hi) x =
     ((lo \<le> x \<and> x \<le> hi) \<or>
      (ic \<and> ((lo \<le> lower_cp x \<and> lower_cp x \<le> hi) \<or> (lo \<le> upper_cp x \<and> upper_cp x \<le> hi))))"
| "cls_match ic da CDigit x = is_decimal x"
| "cls_match ic da CWord x = is_word x"
| "cls_match ic da CSpace x = is_space x"
| "cls_match ic da CAny x = (da \<or> x \<noteq> 10)"

definition in_classes :: "bool \<Rightarrow> bool \<Rightarrow> cls list \<Rightarrow> nat \<Rightarrow> bool" where
  "in_classes ic da cs x = list_ex (\<lambda>c. cls_match ic da c x) cs"

text \<open>
  The state of a match attempt: the position, the code point before it (for \<open>\b\<close> and
  the look-behind), the text from the position on, and the spans of the groups closed so
  far (the latest first).
\<close>

datatype mstate = MState (m_pos: nat) (m_prev: "nat option") (m_rest: ustr)
  (m_groups: "(string \<times> nat \<times> nat) list")

type_synonym cont = "mstate \<Rightarrow> mstate option"

definition take_char :: "(nat \<Rightarrow> bool) \<Rightarrow> cont \<Rightarrow> cont" where
  "take_char p k st =
     (case m_rest st of
        [] \<Rightarrow> None
      | c # cs \<Rightarrow> if p c then k (MState (m_pos st + 1) (Some c) cs (m_groups st)) else None)"

definition at_boundary :: "mstate \<Rightarrow> bool" where
  "at_boundary st =
     ((case m_prev st of None \<Rightarrow> False | Some c \<Rightarrow> is_word c)
      \<noteq> (case m_rest st of [] \<Rightarrow> False | c # cs \<Rightarrow> is_word c))"

text \<open>The end of a group that began at \<open>start\<close>: its span is recorded.\<close>

definition close_group :: "string \<Rightarrow> nat \<Rightarrow> cont \<Rightarrow> cont" where
  "close_group name start k st =
     k (MState (m_pos st) (m_prev st) (m_rest st) ((name, start, m_pos st) # m_groups st))"

text \<open>
  Backtracking by continuations: \<open>k\<close> is the rest of the pattern, and the first
  alternative that lets \<open>k\<close> succeed wins, as in the \<open>re\<close> engine. \<open>rep_min\<close> is the
  mandatory part of a repetition and \<open>rep_opt\<close> the optional part: at most \<open>n\<close> more
  rounds, greedy (one more round first) or lazy (the rest of the pattern first).
\<close>

primrec rep_min :: "nat \<Rightarrow> (cont \<Rightarrow> cont) \<Rightarrow> cont \<Rightarrow> cont" where
  "rep_min 0 step k st = k st"
| "rep_min (Suc n) step k st = step (rep_min n step k) st"

primrec rep_opt :: "nat \<Rightarrow> bool \<Rightarrow> (cont \<Rightarrow> cont) \<Rightarrow> cont \<Rightarrow> cont" where
  "rep_opt 0 greedy step k st = k st"
| "rep_opt (Suc n) greedy step k st =
     (if greedy
      then (case step (rep_opt n greedy step k) st of
              Some r \<Rightarrow> Some r
            | None \<Rightarrow> k st)
      else (case k st of
              Some r \<Rightarrow> Some r
            | None \<Rightarrow> step (rep_opt n greedy step k) st))"

text \<open>
  \<open>len\<close> is the length of the text: a repetition without upper bound makes at most that
  many rounds, since every repeated sub-pattern of the program consumes a code point.
\<close>

primrec match_re :: "bool \<Rightarrow> bool \<Rightarrow> nat \<Rightarrow> regex \<Rightarrow> cont \<Rightarrow> cont" where
  "match_re ic da len (Chars cs) k st = take_char (in_classes ic da cs) k st"
| "match_re ic da len Eps k st = k st"
| "match_re ic da len (Seq a b) k st = match_re ic da len a (match_re ic da len b k) st"
| "match_re ic da len (Alt a b) k st =
     (case match_re ic da len a k st of
        Some r \<Rightarrow> Some r
      | None \<Rightarrow> match_re ic da len b k st)"
| "match_re ic da len (Rep lo hi greedy a) k st =
     rep_min lo (match_re ic da len a)
       (rep_opt (case hi of None \<Rightarrow> len | Some h \<Rightarrow> h - lo) greedy (match_re ic da len a) k) st"
| "match_re ic da len (Grp name a) k st =
     match_re ic da len a (close_group name (m_pos st) k) st"
| "match_re ic da len WordB k st = (if at_boundary st then k st else None)"
| "match_re ic da len (NotBehind cs) k st =
     (case m_prev st of
        None \<Rightarrow> k st
      | Some c \<Rightarrow> if in_classes ic da cs c then None else k st)"

text \<open>A match object: its span and the spans of its groups.\<close>

record rmatch =
  m_start :: nat
  m_end :: nat
  groups :: "(string \<times> nat \<times> nat) list"

text \<open>
  One attempt at a position; with \<open>must_advance\<close> (set by \<open>finditer\<close> after an empty
  match) an empty match is not accepted.
\<close>

definition accept :: "bool \<Rightarrow> nat \<Rightarrow> cont" where
  "accept must_advance start st = (if must_advance \<and> m_pos st = start then None else Some st)"

definition match_here :: "pattern \<Rightarrow> nat \<Rightarrow> bool \<Rightarrow> mstate \<Rightarrow> rmatch option" where
  "match_here p len must_advance st =
     (case match_re (ignorecase p) (dotall p) len (tree p) (accept must_advance (m_pos st)) st of
        None \<Rightarrow> None
      | Some st' \<Rightarrow> Some \<lparr>m_start = m_pos st, m_end = m_pos st', groups = m_groups st'\<rparr>)"

text \<open>\<open>re.search\<close>: the leftmost position with a match.\<close>

primrec search_from :: "pattern \<Rightarrow> nat \<Rightarrow> nat \<Rightarrow> nat option \<Rightarrow> ustr \<Rightarrow> rmatch option" where
  "search_from p len pos prev [] = match_here p len False (MState pos prev [] [])"
| "search_from p len pos prev (c # cs) =
     (case match_here p len False (MState pos prev (c # cs) []) of
        Some m \<Rightarrow> Some m
      | None \<Rightarrow> search_from p len (pos + 1) (Some c) cs)"

definition re_search :: "pattern \<Rightarrow> ustr \<Rightarrow> rmatch option" where
  "re_search p text = search_from p (length text) 0 None text"

text \<open>
  \<open>pattern.finditer\<close>: the matches from left to right, without overlaps. No attempt is
  made before the end of the last match (\<open>skip\<close>); after an empty match the same
  position is tried once more for a match that is not empty.
\<close>

definition matches_here :: "pattern \<Rightarrow> nat \<Rightarrow> nat \<Rightarrow> mstate \<Rightarrow> rmatch list" where
  "matches_here p len skip st =
     (if m_pos st < skip then []
      else case match_here p len False st of
             None \<Rightarrow> []
           | Some m \<Rightarrow>
               if m_pos st < m_end m then [m]
               else m # (case match_here p len True st of None \<Rightarrow> [] | Some m' \<Rightarrow> [m']))"

primrec finditer_from ::
  "pattern \<Rightarrow> nat \<Rightarrow> nat \<Rightarrow> nat \<Rightarrow> nat option \<Rightarrow> ustr \<Rightarrow> rmatch list" where
  "finditer_from p len skip pos prev [] = matches_here p len skip (MState pos prev [] [])"
| "finditer_from p len skip pos prev (c # cs) =
     (case matches_here p len skip (MState pos prev (c # cs) []) of
        [] \<Rightarrow> finditer_from p len skip (pos + 1) (Some c) cs
      | m # ms \<Rightarrow>
          (m # ms) @ finditer_from p len (m_end (last (m # ms))) (pos + 1) (Some c) cs)"

definition finditer :: "pattern \<Rightarrow> ustr \<Rightarrow> rmatch list" where
  "finditer p text = finditer_from p (length text) 0 0 None text"

text \<open>\<open>m.group(name)\<close>: the captured text, \<open>None\<close> for a group that took no part.\<close>

definition group :: "ustr \<Rightarrow> rmatch \<Rightarrow> string \<Rightarrow> ustr option" where
  "group text m name =
     (case map_of (groups m) name of
        None \<Rightarrow> None
      | Some (s, e) \<Rightarrow> Some (slice text s e))"

section \<open>The patterns of the program\<close>

text \<open>
  \<open>MONTHS_RU\<close>: the genitive Russian month names (yanvarya, fevralya, marta, aprelya,
  maya, iyunya, iyulya, avgusta, sentyabrya, oktyabrya, noyabrya, dekabrya).
\<close>

definition MONTHS_RU :: "(ustr \<times> int) list" where
  "MONTHS_RU =
     [([1103, 1085, 1074, 1072, 1088, 1103], 1),
      ([1092, 1077, 1074, 1088, 1072, 1083, 1103], 2),
      ([1084, 1072, 1088, 1090, 1072], 3),
      ([1072, 1087, 1088, 1077, 1083, 1103], 4),
      ([1084, 1072, 1103], 5),
      ([1080, 1102, 1085, 1103], 6),
      ([1080, 1102, 1083, 1103], 7),
      ([1072, 1074, 1075, 1091, 1089, 1090, 1072], 8),
      ([1089, 1077, 1085, 1090, 1103, 1073, 1088, 1103], 9),
      ([1086, 1082, 1090, 1103, 1073, 1088, 1103], 10),
      ([1085, 1086, 1103, 1073, 1088, 1103], 11),
      ([1076, 1077, 1082, 1072, 1073, 1088, 1103], 12)]"

text \<open>
  \<open>YEAR_PATTERNS\<close>, searched with \<open>re.IGNORECASE\<close>:
  \<^verbatim>\<open>(?P<year>20\d{2})\s*goda\<close>, \<^verbatim>\<open>za\s+(?P<year>20\d{2})\s*god\<close> and
  \<^verbatim>\<open>kalendar[soft sign, ya, e][\w\s]+(?P<year>20\d{2})\<close> (the Russian words are
  transliterated here; the definitions hold their code points).
\<close>

definition YEAR_PATTERNS :: "pattern list" where
  "YEAR_PATTERNS =
     [\<lparr>ignorecase = True, dotall = False,
        tree = seqs [Grp ''year'' (seqs [lit [50, 48], Rep 2 (Some 2) True (Chars [CDigit])]), Rep 0 None True (Chars [CSpace]), lit [1075, 1086, 1076, 1072]]\<rparr>,
      \<lparr>ignorecase = True, dotall = False,
        tree = seqs [lit [1079, 1072], Rep 1 None True (Chars [CSpace]), Grp ''year'' (seqs [lit [50, 48], Rep 2 (Some 2) True (Chars [CDigit])]), Rep 0 None True (Chars [CSpace]), lit [1075, 1086, 1076]]\<rparr>,
      \<lparr>ignorecase = True, dotall = False,
        tree = seqs [lit [1082, 1072, 1083, 1077, 1085, 1076, 1072, 1088], Chars [CChar 1100, CChar 1103, CChar 1077],
                     Rep 1 None True (Chars [CWord, CSpace]), Grp ''year'' (seqs [lit [50, 48], Rep 2 (Some 2) True (Chars [CDigit])])]\<rparr>]"

text \<open>
  \<open>LISTED_DAYS_RE\<close>:
  \<^verbatim>\<open>(?P<days>(?:\d{1,2}\s*,\s*)*(?:\d{1,2})(?:\s*i\s*\d{1,2})?)\s+(?P<month>[a-ya]+)\b\<close>
  with \<open>re.IGNORECASE\<close>, where \<open>i\<close> is the Cyrillic letter U+0438 and \<open>[a-ya]\<close> the
  range U+0430 to U+044F.
\<close>

definition LISTED_DAYS_RE :: pattern where
  "LISTED_DAYS_RE =
     \<lparr>ignorecase = True, dotall = False,
      tree = seqs
        [Grp ''days'' (seqs
           [Rep 0 None True (seqs [Rep 1 (Some 2) True (Chars [CDigit]), Rep 0 None True (Chars [CSpace]), Chars [CChar 44], Rep 0 None True (Chars [CSpace])]),
            Rep 1 (Some 2) True (Chars [CDigit]),
            Rep 0 (Some 1) True (seqs [Rep 0 None True (Chars [CSpace]), Chars [CChar 1080], Rep 0 None True (Chars [CSpace]), Rep 1 (Some 2) True (Chars [CDigit])])]),
         Rep 1 None True (Chars [CSpace]),
         Grp ''month'' (Rep 1 None True (Chars [CRange 1072 1103])),
         WordB]\<rparr>"

text \<open>
  \<open>RANGE_RE\<close>: \<^verbatim>\<open>s\s+(?P<d1>\d{1,2})\s+po\s+(?P<d2>\d{1,2})\s+(?P<month>[a-ya]+)\b\<close>
  with \<open>re.IGNORECASE\<close> (\<open>s\<close> is U+0441, \<open>po\<close> is U+043F U+043E).
\<close>

definition RANGE_RE :: pattern where
  "RANGE_RE =
     \<lparr>ignorecase = True, dotall = False,
      tree = seqs
        [Chars [CChar 1089], Rep 1 None True (Chars [CSpace]), Grp ''d1'' (Rep 1 (Some 2) True (Chars [CDigit])), Rep 1 None True (Chars [CSpace]), lit [1087, 1086], Rep 1 None True (Chars [CSpace]),
         Grp ''d2'' (Rep 1 (Some 2) True (Chars [CDigit])), Rep 1 None True (Chars [CSpace]), Grp ''month'' (Rep 1 None True (Chars [CRange 1072 1103])), WordB]\<rparr>"

text \<open>
  \<open>SINGLE_DAY_RE\<close>: \<^verbatim>\<open>(?<!\d)(?P<day>\d{1,2})\s+(?P<month>[a-ya]+)\b\<close> with
  \<open>re.IGNORECASE\<close>.
\<close>

definition SINGLE_DAY_RE :: pattern where
  "SINGLE_DAY_RE =
     \<lparr>ignorecase = True, dotall = False,
      tree = seqs
        [NotBehind [CDigit], Grp ''day'' (Rep 1 (Some 2) True (Chars [CDigit])), Rep 1 None True (Chars [CSpace]), Grp ''month'' (Rep 1 None True (Chars [CRange 1072 1103])), WordB]\<rparr>"

text \<open>
  \<open>TRANSFER_RE\<close>:
  \<^verbatim>\<open>(perenos\w*|perenesti\w*|perenosyat\w*|perenosyat\w*).{0,80}?\<close>
  \<^verbatim>\<open>(?P<from_day>\d{1,2})\s+(?P<from_month>[a-ya]+).{0,40}?\<close>
  \<^verbatim>\<open>na\s+(?P<to_day>\d{1,2})\s+(?P<to_month>[a-ya]+)\<close>
  with \<open>re.IGNORECASE | re.DOTALL\<close>. The first group has no name; it is group 1.
\<close>

definition TRANSFER_RE :: pattern where
  "TRANSFER_RE =
     \<lparr>ignorecase = True, dotall = True,
      tree = seqs
        [Grp ''1''
           (Alt (seqs [lit [1087, 1077, 1088, 1077, 1085, 1086, 1089], Rep 0 None True (Chars [CWord])])
           (Alt (seqs [lit [1087, 1077, 1088, 1077, 1085, 1077, 1089, 1090, 1080], Rep 0 None True (Chars [CWord])])
           (Alt (seqs [lit [1087, 1077, 1088, 1077, 1085, 1086, 1089, 1103, 1090], Rep 0 None True (Chars [CWord])])
                (seqs [lit [1087, 1077, 1088, 1077, 1085, 1086, 1089, 1103, 1090], Rep 0 None True (Chars [CWord])])))),
         Rep 0 (Some 80) False (Chars [CAny]),
         Grp ''from_day'' (Rep 1 (Some 2) True (Chars [CDigit])), Rep 1 None True (Chars [CSpace]), Grp ''from_month'' (Rep 1 None True (Chars [CRange 1072 1103])),
         Rep 0 (Some 40) False (Chars [CAny]),
         lit [1085, 1072], Rep 1 None True (Chars [CSpace]), Grp ''to_day'' (Rep 1 (Some 2) True (Chars [CDigit])), Rep 1 None True (Chars [CSpace]), Grp ''to_month'' (Rep 1 None True (Chars [CRange 1072 1103]))]\<rparr>"

section \<open>The date extractor\<close>

record ParseResult =
  pr_year :: int
  nonworking_dates :: "date set"
  pr_notes :: "ustr list"

text \<open>
  \<open>_detect_year\<close>. The loop over \<open>YEAR_PATTERNS\<close> returns at the first pattern that
  matches. \<open>today\<close> stands for \<open>date.today().year\<close>. A fallback of \<open>None\<close> or 0 is
  falsy.
\<close>

fun first_search :: "pattern list \<Rightarrow> ustr \<Rightarrow> rmatch option" where
  "first_search [] text = None"
| "first_search (pat # pats) text =
     (case re_search pat text of
        Some m \<Rightarrow> Some m
      | None \<Rightarrow> first_search pats text)"

definition detect_year :: "int \<Rightarrow> ustr \<Rightarrow> int option \<Rightarrow> error + int" where
  "detect_year today text fallback =
     (case first_search YEAR_PATTERNS text of
        Some m \<Rightarrow> py_int (group text m ''year'')
      | None \<Rightarrow>
          (case fallback of
             Some f \<Rightarrow> if f \<noteq> 0 then Inr f else Inr today
           | None \<Rightarrow> Inr today))"

text \<open>
  \<open>_normalize_month\<close>: \<open>token.lower().strip(" .,:;")\<close> looked up in \<open>MONTHS_RU\<close>.
  Calling \<open>lower\<close> on \<open>None\<close> raises AttributeError.
\<close>

definition normalize_month :: "ustr option \<Rightarrow> error + int option" where
  "normalize_month token =
     (case token of
        None \<Rightarrow> Inl AttributeError
      | Some t \<Rightarrow>
          Inr (map_of MONTHS_RU (strip_chars (\<lambda>c. c \<in> set [32, 46, 44, 58, 59]) (str_lower t))))"

text \<open>\<open>_safe_date\<close>: only ValueError is caught.\<close>

definition safe_date :: "int \<Rightarrow> int \<Rightarrow> int \<Rightarrow> error + date option" where
  "safe_date y m d =
     (case date_new y m d of
        Inr dt \<Rightarrow> Inr (Some dt)
      | Inl e \<Rightarrow> if e = ValueError then Inr None else Inl e)"

text \<open>
  The accumulator of the four loops: the set \<open>nonworking\<close> and the list \<open>notes\<close>.
  \<open>run_loop\<close> is a \<open>for m in pattern.finditer(text)\<close> loop; an exception ends it.
\<close>

text \<open>A group inside an f-string: \<open>None\<close> prints as the word None.\<close>

definition fmt_group :: "ustr option \<Rightarrow> ustr" where
  "fmt_group g = (case g of None \<Rightarrow> [78, 111, 110, 101] | Some s \<Rightarrow> s)"

type_synonym acc = "date set \<times> ustr list"

fun run_loop :: "('m \<Rightarrow> acc \<Rightarrow> error + acc) \<Rightarrow> 'm list \<Rightarrow> acc \<Rightarrow> error + acc" where
  "run_loop body [] a = Inr a"
| "run_loop body (m # ms) a =
     (case body m a of
        Inl e \<Rightarrow> Inl e
      | Inr a' \<Rightarrow> run_loop body ms a')"

text \<open>
  Loop 1, ranges. The inner loop \<open>for dday in range(min(d1, d2), max(d1, d2) + 1)\<close>
  adds every date that \<open>_safe_date\<close> builds. The note is
  \<open>f"Diapazon: {d1}-{d2} {month}"\<close> (in Russian).
\<close>

fun range_days :: "int \<Rightarrow> int \<Rightarrow> int list \<Rightarrow> date set \<Rightarrow> error + date set" where
  "range_days y mo [] nw = Inr nw"
| "range_days y mo (d # ds) nw =
     (case safe_date y mo d of
        Inl e \<Rightarrow> Inl e
      | Inr None \<Rightarrow> range_days y mo ds nw
      | Inr (Some dt) \<Rightarrow> range_days y mo ds (insert dt nw))"

definition range_note :: "int \<Rightarrow> int \<Rightarrow> ustr \<Rightarrow> ustr" where
  "range_note d1 d2 month_text =
     [1044, 1080, 1072, 1087, 1072, 1079, 1086, 1085, 58, 32] @ py_str d1 @ [45] @ py_str d2 @ [32] @ month_text"

definition range_body :: "int \<Rightarrow> ustr \<Rightarrow> rmatch \<Rightarrow> acc \<Rightarrow> error + acc" where
  "range_body y text m a =
     (case normalize_month (group text m ''month'') of
        Inl e \<Rightarrow> Inl e
      | Inr None \<Rightarrow> Inr a
      | Inr (Some mo) \<Rightarrow>
          if mo = 0 then Inr a
          else (case py_int (group text m ''d1'') of
                  Inl e \<Rightarrow> Inl e
                | Inr d1 \<Rightarrow>
                    (case py_int (group text m ''d2'') of
                       Inl e \<Rightarrow> Inl e
                     | Inr d2 \<Rightarrow>
                         (case range_days y mo [min d1 d2 .. max d1 d2] (fst a) of
                            Inl e \<Rightarrow> Inl e
                          | Inr nw \<Rightarrow>
                              Inr (nw, snd a @
                                [range_note d1 d2 (fmt_group (group text m ''month''))])))))"

definition range_stage :: "int \<Rightarrow> ustr \<Rightarrow> acc \<Rightarrow> error + acc" where
  "range_stage y text a = run_loop (range_body y text) (finditer RANGE_RE text) a"

text \<open>
  Loop 2, lists. \<open>parse_days\<close> is the parsing of \<open>raw_days\<close>: the conjunction between
  spaces becomes a comma, the string is split at the commas, and the tokens that are
  digits after \<open>strip()\<close> are converted. The inner loop adds the dates that are new and
  remembers whether there was one. The note is \<open>f"Perechen: {raw_days} {month}"\<close>.
\<close>

definition DIGIT_RE :: pattern where
  "DIGIT_RE = \<lparr>ignorecase = False, dotall = False, tree = Chars [CDigit]\<rparr>"

fun tokens_days :: "ustr list \<Rightarrow> error + int list" where
  "tokens_days [] = Inr []"
| "tokens_days (token # rest) =
     (if str_isdigit (str_strip token)
      then (case py_int (Some (str_strip token)) of
              Inl e \<Rightarrow> Inl e
            | Inr d \<Rightarrow> (case tokens_days rest of Inl e \<Rightarrow> Inl e | Inr ds \<Rightarrow> Inr (d # ds)))
      else tokens_days rest)"

definition parse_days :: "ustr \<Rightarrow> error + int list" where
  "parse_days raw_days = tokens_days (str_split 44 (str_replace [32, 1080, 32] [44] raw_days))"

fun list_days :: "int \<Rightarrow> int \<Rightarrow> int list \<Rightarrow> date set \<times> bool \<Rightarrow> error + date set \<times> bool" where
  "list_days y mo [] s = Inr s"
| "list_days y mo (d # ds) s =
     (case safe_date y mo d of
        Inl e \<Rightarrow> Inl e
      | Inr None \<Rightarrow> list_days y mo ds s
      | Inr (Some dt) \<Rightarrow>
          if dt \<notin> fst s then list_days y mo ds (insert dt (fst s), True)
          else list_days y mo ds s)"

definition list_note :: "ustr \<Rightarrow> ustr \<Rightarrow> ustr" where
  "list_note raw_days month_text = [1055, 1077, 1088, 1077, 1095, 1077, 1085, 1100, 58, 32] @ raw_days @ [32] @ month_text"

definition list_body :: "int \<Rightarrow> ustr \<Rightarrow> rmatch \<Rightarrow> acc \<Rightarrow> error + acc" where
  "list_body y text m a =
     (case normalize_month (group text m ''month'') of
        Inl e \<Rightarrow> Inl e
      | Inr None \<Rightarrow> Inr a
      | Inr (Some mo) \<Rightarrow>
          if mo = 0 then Inr a
          else (case group text m ''days'' of
                  None \<Rightarrow> Inr a
                | Some raw_days \<Rightarrow>
                    if raw_days = [] \<or> re_search DIGIT_RE raw_days = None then Inr a
                    else (case parse_days raw_days of
                            Inl e \<Rightarrow> Inl e
                          | Inr days \<Rightarrow>
                              if days = [] then Inr a
                              else (case list_days y mo days (fst a, False) of
                                      Inl e \<Rightarrow> Inl e
                                    | Inr (nw, added_any) \<Rightarrow>
                                        if added_any
                                        then Inr (nw, snd a @
                                          [list_note raw_days
                                             (fmt_group (group text m ''month''))])
                                        else Inr (nw, snd a)))))"

definition list_stage :: "int \<Rightarrow> ustr \<Rightarrow> acc \<Rightarrow> error + acc" where
  "list_stage y text a = run_loop (list_body y text) (finditer LISTED_DAYS_RE text) a"

text \<open>
  Loop 3, single dates. A date that is new is added only if the window of 40 code points
  before and after the match, in lower case, contains one of the three trigger substrings
  (neraboch, prazdnich, vykhodn). The note is \<open>f"Odinochnaya data: {dday} {month}"\<close>.
\<close>

definition TRIGGERS :: "ustr list" where
  "TRIGGERS = [[1085, 1077, 1088, 1072, 1073, 1086, 1095], [1087, 1088, 1072, 1079, 1076, 1085, 1080, 1095], [1074, 1099, 1093, 1086, 1076, 1085]]"

definition in_window :: "ustr \<Rightarrow> bool" where
  "in_window window = list_ex (\<lambda>key. str_contains window key) TRIGGERS"

definition single_note :: "int \<Rightarrow> ustr \<Rightarrow> ustr" where
  "single_note dday month_text = [1054, 1076, 1080, 1085, 1086, 1095, 1085, 1072, 1103, 32, 1076, 1072, 1090, 1072, 58, 32] @ py_str dday @ [32] @ month_text"

definition single_body :: "int \<Rightarrow> ustr \<Rightarrow> rmatch \<Rightarrow> acc \<Rightarrow> error + acc" where
  "single_body y text m a =
     (case normalize_month (group text m ''month'') of
        Inl e \<Rightarrow> Inl e
      | Inr None \<Rightarrow> Inr a
      | Inr (Some mo) \<Rightarrow>
          if mo = 0 then Inr a
          else (case py_int (group text m ''day'') of
                  Inl e \<Rightarrow> Inl e
                | Inr dday \<Rightarrow>
                    (case safe_date y mo dday of
                       Inl e \<Rightarrow> Inl e
                     | Inr None \<Rightarrow> Inr a
                     | Inr (Some dt) \<Rightarrow>
                         if dt \<notin> fst a then
                           (if in_window (str_lower (slice text (m_start m - 40) (m_end m + 40)))
                            then Inr (insert dt (fst a), snd a @
                                   [single_note dday (fmt_group (group text m ''month''))])
                            else Inr a)
                         else Inr a)))"

definition single_stage :: "int \<Rightarrow> ustr \<Rightarrow> acc \<Rightarrow> error + acc" where
  "single_stage y text a = run_loop (single_body y text) (finditer SINGLE_DAY_RE text) a"

text \<open>
  Loop 4, transfers. Only the destination date is added, and it is added without a test
  for membership. The note is \<open>f"Perenos na: {d_to} {to_month}"\<close>.
\<close>

definition transfer_note :: "int \<Rightarrow> ustr \<Rightarrow> ustr" where
  "transfer_note d_to month_text = [1055, 1077, 1088, 1077, 1085, 1086, 1089, 32, 1085, 1072, 58, 32] @ py_str d_to @ [32] @ month_text"

definition transfer_body :: "int \<Rightarrow> ustr \<Rightarrow> rmatch \<Rightarrow> acc \<Rightarrow> error + acc" where
  "transfer_body y text m a =
     (case py_int (group text m ''from_day'') of
        Inl e \<Rightarrow> Inl e
      | Inr d_from \<Rightarrow>
          (case py_int (group text m ''to_day'') of
             Inl e \<Rightarrow> Inl e
           | Inr d_to \<Rightarrow>
               (case normalize_month (group text m ''from_month'') of
                  Inl e \<Rightarrow> Inl e
                | Inr m_from \<Rightarrow>
                    (case normalize_month (group text m ''to_month'') of
                       Inl e \<Rightarrow> Inl e
                     | Inr None \<Rightarrow> Inr a
                     | Inr (Some m_to) \<Rightarrow>
                         if m_to = 0 then Inr a
                         else (case safe_date y m_to d_to of
                                 Inl e \<Rightarrow> Inl e
                               | Inr None \<Rightarrow> Inr a
                               | Inr (Some dt_to) \<Rightarrow>
                                   Inr (insert dt_to (fst a), snd a @
                                     [transfer_note d_to
                                        (fmt_group (group text m ''to_month''))]))))))"

definition transfer_stage :: "int \<Rightarrow> ustr \<Rightarrow> acc \<Rightarrow> error + acc" where
  "transfer_stage y text a = run_loop (transfer_body y text) (finditer TRANSFER_RE text) a"

text \<open>\<open>extract_nonworking_dates\<close>: the year, then the four loops in their order.\<close>

definition extract_nonworking_dates :: "int \<Rightarrow> ustr \<Rightarrow> int option \<Rightarrow> error + ParseResult" where
  "extract_nonworking_dates today text year_hint =
     (case detect_year today text year_hint of
        Inl e \<Rightarrow> Inl e
      | Inr y \<Rightarrow>
          (case range_stage y text ({}, []) of
             Inl e \<Rightarrow> Inl e
           | Inr a1 \<Rightarrow>
               (case list_stage y text a1 of
                  Inl e \<Rightarrow> Inl e
                | Inr a2 \<Rightarrow>
                    (case single_stage y text a2 of
                       Inl e \<Rightarrow> Inl e
                     | Inr a3 \<Rightarrow>
                         (case transfer_stage y text a3 of
                            Inl e \<Rightarrow> Inl e
                          | Inr a4 \<Rightarrow>
                              Inr \<lparr>pr_year = y, nonworking_dates = fst a4,
                                   pr_notes = snd a4\<rparr>)))))"

section \<open>Auxiliary notions for the proofs\<close>

text \<open>The dates of month \<open>mo\<close> of year \<open>y\<close> that the constructor accepts, for the days of a list.\<close>

definition dates_of :: "int \<Rightarrow> int \<Rightarrow> int list \<Rightarrow> date set" where
  "dates_of y mo ds = {Date y mo d | d. d \<in> set ds \<and> valid_ymd y mo d}"

text \<open>A loop body that only adds dates of the year \<open>y\<close> that the constructor accepted.\<close>

definition adds_only :: "int \<Rightarrow> ('m \<Rightarrow> acc \<Rightarrow> error + acc) \<Rightarrow> bool" where
  "adds_only y body = (\<forall>m a a'. body m a = Inr a' \<longrightarrow>
      fst a \<subseteq> fst a' \<and> (\<forall>d \<in> fst a' - fst a. year d = y \<and> valid_date d))"

text \<open>
  The example texts of the specification, by code points:
  \<open>s 1 po 8 yanvarya\<close>; \<open>8 marta\<close>; \<open>8 marta - nerabochiy den\<close> (with an em dash);
  \<open>1, 2 i 7 yanvarya nerabochie\<close>; \<open>perenos vykhodnogo s 5 yanvarya na 8 yanvarya\<close>;
  \<open>kalendar na 2026 god\<close>; and, for the first two year patterns,
  \<open>2025 goda\<close> and \<open>za 2024 god\<close>.
\<close>

definition text_range :: ustr where
  "text_range = [1089, 32, 49, 32, 1087, 1086, 32, 56, 32, 1103, 1085, 1074, 1072, 1088, 1103]"

definition text_single :: ustr where
  "text_single = [56, 32, 1084, 1072, 1088, 1090, 1072]"

definition text_single_trigger :: ustr where
  "text_single_trigger = [56, 32, 1084, 1072, 1088, 1090, 1072, 32, 8212, 32, 1085, 1077, 1088, 1072, 1073, 1086, 1095, 1080, 1081, 32, 1076, 1077, 1085, 1100]"

definition text_list :: ustr where
  "text_list = [49, 44, 32, 50, 32, 1080, 32, 55, 32, 1103, 1085, 1074, 1072, 1088, 1103, 32, 1085, 1077, 1088, 1072, 1073, 1086, 1095, 1080, 1077]"

definition text_transfer :: ustr where
  "text_transfer = [1087, 1077, 1088, 1077, 1085, 1086, 1089, 32, 1074, 1099, 1093, 1086, 1076, 1085, 1086, 1075, 1086, 32, 1089, 32, 53, 32, 1103, 1085, 1074, 1072, 1088, 1103, 32, 1085, 1072, 32, 56, 32, 1103, 1085, 1074, 1072, 1088, 1103]"

definition text_calendar :: ustr where
  "text_calendar = [1082, 1072, 1083, 1077, 1085, 1076, 1072, 1088, 1100, 32, 1085, 1072, 32, 50, 48, 50, 54, 32, 1075, 1086, 1076]"

definition text_goda :: ustr where
  "text_goda = [50, 48, 50, 53, 32, 1075, 1086, 1076, 1072]"

definition text_za :: ustr where
  "text_za = [1079, 1072, 32, 50, 48, 50, 52, 32, 1075, 1086, 1076]"

text \<open>
  Further texts: a range and a list that name days February does not have
  (\<open>s 28 po 31 fevralya\<close>, \<open>30 i 28 fevralya\<close>), two lists in one text
  (\<open>1 i 2 maya, 3 i 4 iyunya\<close>), a mention with a capital letter (\<open>8 Marta\<close>), and two
  mentions, the second after a tab and with a capital letter (\<open>1 maya i 9 Maya.\<close>).
\<close>

definition text_range_feb :: ustr where
  "text_range_feb = [1089, 32, 50, 56, 32, 1087, 1086, 32, 51, 49, 32, 1092, 1077, 1074, 1088, 1072, 1083, 1103]"

definition text_list_feb :: ustr where
  "text_list_feb = [51, 48, 32, 1080, 32, 50, 56, 32, 1092, 1077, 1074, 1088, 1072, 1083, 1103]"

definition text_two_lists :: ustr where
  "text_two_lists = [49, 32, 1080, 32, 50, 32, 1084, 1072, 1103, 44, 32, 51, 32, 1080, 32, 52, 32, 1080, 1102, 1085, 1103]"

definition text_upper :: ustr where
  "text_upper = [56, 32, 1052, 1072, 1088, 1090, 1072]"

definition text_two_bare :: ustr where
  "text_two_bare = [49, 32, 1084, 1072, 1103, 32, 1080, 32, 57, 9, 1052, 1072, 1103, 46]"

text \<open>
  Names for the parts of \<open>LISTED_DAYS_RE\<close> (the \<open>days\<close> group, the white space
  after it, the month group with the word boundary), and for the Russian letters
  U+0410 to U+044F, capital and small.
\<close>

definition is_ru_letter :: "nat \<Rightarrow> bool" where
  "is_ru_letter c = (1040 \<le> c \<and> c \<le> 1103)"

definition MON :: regex where "MON = Rep 1 None True (Chars [CRange 1072 1103])"

definition MONTH_REST :: regex where "MONTH_REST = Seq (Grp ''month'' MON) (Seq WordB Eps)"

definition DAYS_PART :: regex where
  "DAYS_PART = Grp ''days'' (seqs
           [Rep 0 None True (seqs [Rep 1 (Some 2) True (Chars [CDigit]), Rep 0 None True (Chars [CSpace]), Chars [CChar 44], Rep 0 None True (Chars [CSpace])]),
            Rep 1 (Some 2) True (Chars [CDigit]),
            Rep 0 (Some 1) True (seqs [Rep 0 None True (Chars [CSpace]), Chars [CChar 1080], Rep 0 None True (Chars [CSpace]), Rep 1 (Some 2) True (Chars [CDigit])])])"

definition WS1 :: regex where "WS1 = Rep 1 None True (Chars [CSpace])"

section \<open>Properties of the calendar builder\<close>

lemma valid_dateD: "date_new y m d = Inr x \<Longrightarrow> x = Date y m d \<and> valid_ymd y m d"
  by (auto simp: date_new_def split: if_splits)

lemma month_cases: "1 \<le> m \<Longrightarrow> m \<le> (12::int) \<Longrightarrow> m = 1 \<or> m = 2 \<or> m = 3 \<or> m = 4 \<or> m = 5 \<or> m = 6 \<or> m = 7 \<or> m = 8 \<or> m = 9 \<or> m = 10 \<or> m = 11 \<or> m = 12"
  by arith

lemma dbm_step: "1 \<le> m \<Longrightarrow> m < 12 \<Longrightarrow> days_before_month y (m + 1) = days_before_month y m + days_in_month y m"
  using month_cases[of m] by (auto simp: days_before_month_def days_in_month_def)

lemma dbm_mono_aux: "1 \<le> m \<Longrightarrow> m + int k < 12 \<Longrightarrow> days_before_month y m + days_in_month y m \<le> days_before_month y (m + int k + 1)"
proof (induction k)
  case 0 then show ?case using dbm_step[of m y] by simp
next
  case (Suc k)
  have "days_in_month y (m + int k + 1) \<ge> 0" by (simp add: days_in_month_def)
  moreover have "days_before_month y (m + int k + 1 + 1) = days_before_month y (m + int k + 1) + days_in_month y (m + int k + 1)"
    using Suc.prems by (intro dbm_step) auto
  moreover have "days_before_month y m + days_in_month y m \<le> days_before_month y (m + int k + 1)"
    using Suc by auto
  moreover have "m + int (Suc k) + 1 = m + int k + 1 + 1" by simp
  ultimately show ?case by (metis add_increasing2 add.commute)
qed

lemma dbm_lt: "1 \<le> m \<Longrightarrow> m < m' \<Longrightarrow> m' \<le> 12 \<Longrightarrow> days_before_month y m + days_in_month y m \<le> days_before_month y m'"
  using dbm_mono_aux[of m "nat (m' - m - 1)" y] by auto

lemma yday_lt: "valid_date a \<Longrightarrow> valid_date b \<Longrightarrow> year a = year b \<Longrightarrow> month a < month b \<Longrightarrow> yday a < yday b"
  using dbm_lt[of "month a" "month b" "year a"] by (auto simp: valid_date_def valid_ymd_def yday_def)

lemma yday_inj: "valid_date a \<Longrightarrow> valid_date b \<Longrightarrow> year a = year b \<Longrightarrow> yday a = yday b \<Longrightarrow> a = b"
proof -
  assume a: "valid_date a" "valid_date b" "year a = year b" "yday a = yday b"
  have "\<not> month a < month b" using yday_lt[OF a(1,2,3)] a(4) by auto
  moreover have "\<not> month b < month a" using yday_lt[OF a(2,1)] a(3,4) by auto
  ultimately have "month a = month b" by simp
  with a show ?thesis by (cases a; cases b) (auto simp: yday_def)
qed


lemma yday_le: "valid_date a \<Longrightarrow> yday a \<le> year_days (year a)"
  using month_cases[of "month a"]
  by (auto simp: valid_date_def valid_ymd_def yday_def year_days_def days_before_month_def days_in_month_def split: if_splits)

lemma yday_ge: "valid_date a \<Longrightarrow> 1 \<le> yday a"
  using month_cases[of "month a"]
  by (auto simp: valid_date_def valid_ymd_def yday_def days_before_month_def split: if_splits)

lemma doy_yday: "year d = y \<Longrightarrow> days_between d (Date y 1 1) + 1 = yday d"
  by (simp add: days_between_def toordinal_def yday_def days_before_month_def)

lemma add_day_cases:
  assumes "valid_date d" "year d \<le> 9998"
  shows "(\<exists>d'. date_add_day d = Inr d' \<and> valid_date d' \<and> year d' = year d \<and> yday d' = yday d + 1)
       \<or> (date_add_day d = Inr (Date (year d + 1) 1 1) \<and> yday d = year_days (year d))"
proof (cases "day d < days_in_month (year d) (month d)")
  case True
  with assms show ?thesis
    by (auto simp: date_add_day_def valid_date_def valid_ymd_def yday_def)
next
  case False
  hence dd: "day d = days_in_month (year d) (month d)"
    using assms by (auto simp: valid_date_def valid_ymd_def)
  show ?thesis
  proof (cases "month d < 12")
    case True
    have "days_before_month (year d) (month d + 1) = days_before_month (year d) (month d) + days_in_month (year d) (month d)"
      using assms True by (intro dbm_step) (auto simp: valid_date_def valid_ymd_def)
    moreover have "1 \<le> days_in_month (year d) (month d + 1)" by (simp add: days_in_month_def)
    ultimately show ?thesis using True False dd assms
      by (auto simp: date_add_day_def valid_date_def valid_ymd_def yday_def)
  next
    case F2: False
    hence "month d = 12" using assms by (auto simp: valid_date_def valid_ymd_def)
    thus ?thesis using False dd assms
      by (auto simp: date_add_day_def valid_date_def valid_ymd_def yday_def year_days_def days_before_month_def days_in_month_def)
  qed
qed

lemma year_loop_inv:
  assumes Y: "1 \<le> Y" "Y \<le> 9998"
  shows "valid_date d \<Longrightarrow> year d = Y \<Longrightarrow> n = nat (year_days Y - yday d) \<Longrightarrow>
     \<exists>R. year_loop (Date Y 1 1) (Date (Y + 1) 1 1) nws d res = Some (Inr R)
        \<and> (\<forall>x. valid_date x \<and> year x = Y \<and> yday d \<le> yday x \<longrightarrow> R (yday x) = Some (day_label nws x))
        \<and> (\<forall>k. k < yday d \<longrightarrow> R k = res k)
        \<and> dom R = dom res \<union> {yday d .. year_days Y}"
proof (induction n arbitrary: d res)
  case 0
  have lt: "date_lt d (Date (Y + 1) 1 1)" using 0 by (simp add: date_lt_def)
  have le: "yday d \<le> year_days Y" using yday_le[of d] 0 by simp
  hence eq: "yday d = year_days Y" using 0 by simp
  have nx: "date_add_day d = Inr (Date (Y + 1) 1 1)"
    using add_day_cases[of d] 0 Y eq yday_le by fastforce
  let ?res' = "res(yday d \<mapsto> day_label nws d)"
  have stop: "year_loop (Date Y 1 1) (Date (Y + 1) 1 1) nws (Date (Y + 1) 1 1) ?res' = Some (Inr ?res')"
    by (subst year_loop.simps) (simp add: date_lt_def)
  have run: "year_loop (Date Y 1 1) (Date (Y + 1) 1 1) nws d res = Some (Inr ?res')"
    by (subst year_loop.simps) (simp add: lt nx doy_yday[OF "0.prems"(2)] stop Let_def)
  have "\<And>x. valid_date x \<Longrightarrow> year x = Y \<Longrightarrow> yday d \<le> yday x \<Longrightarrow> x = d"
    using yday_le yday_inj eq "0.prems" by (metis order_antisym)
  thus ?case using run eq by auto
next
  case (Suc n)
  have lt: "date_lt d (Date (Y + 1) 1 1)" using Suc.prems by (simp add: date_lt_def)
  have neq: "yday d < year_days Y" using Suc.prems by linarith
  then obtain d' where d': "date_add_day d = Inr d'" "valid_date d'" "year d' = Y" "yday d' = yday d + 1"
    using add_day_cases[of d] Suc.prems Y by auto
  let ?res' = "res(yday d \<mapsto> day_label nws d)"
  have "n = nat (year_days Y - yday d')" using Suc.prems d' by linarith
  from Suc.IH[OF d'(2) d'(3) this, of ?res'] obtain R where
    R: "year_loop (Date Y 1 1) (Date (Y + 1) 1 1) nws d' ?res' = Some (Inr R)"
       "\<And>x. valid_date x \<Longrightarrow> year x = Y \<Longrightarrow> yday d' \<le> yday x \<Longrightarrow> R (yday x) = Some (day_label nws x)"
       "\<And>k. k < yday d' \<Longrightarrow> R k = ?res' k"
       "dom R = dom ?res' \<union> {yday d' .. year_days Y}" by blast
  have run: "year_loop (Date Y 1 1) (Date (Y + 1) 1 1) nws d res = Some (Inr R)"
    by (subst year_loop.simps) (simp add: lt d' doy_yday[OF Suc.prems(2)] R(1) Let_def)
  have a: "R (yday x) = Some (day_label nws x)" if "valid_date x" "year x = Y" "yday d \<le> yday x" for x
  proof (cases "yday x = yday d")
    case True
    hence "x = d" using yday_inj that Suc.prems by metis
    thus ?thesis using R(3)[of "yday d"] d' by simp
  next
    case False
    thus ?thesis using R(2)[of x] that d' by simp
  qed
  have b: "R k = res k" if "k < yday d" for k
    using R(3)[of k] that d' by simp
  have c: "dom R = dom res \<union> {yday d .. year_days Y}"
    using R(4) d' neq by auto
  show ?case using run a b c by blast
qed

lemma build_year_map_run:
  assumes Y: "1 \<le> Y" "Y \<le> 9998"
  shows "\<exists>R. build_year_map Y nws = Some (Inr R)
        \<and> (\<forall>x. valid_date x \<and> year x = Y \<longrightarrow> R (days_between x (Date Y 1 1) + 1) = Some (day_label nws x))
        \<and> dom R = {1 .. year_days Y}"
proof -
  have v: "valid_date (Date Y 1 1)" using Y by (simp add: valid_date_def valid_ymd_def days_in_month_def)
  have y1: "yday (Date Y 1 1) = 1" by (simp add: yday_def days_before_month_def)
  have s: "date_new Y 1 1 = Inr (Date Y 1 1)" "date_new (Y + 1) 1 1 = Inr (Date (Y + 1) 1 1)"
    using Y by (simp_all add: date_new_def c_int_def valid_ymd_def days_in_month_def)
  from year_loop_inv[OF Y v, of "nat (year_days Y - 1)" nws Map.empty] y1
  obtain R where R: "year_loop (Date Y 1 1) (Date (Y + 1) 1 1) nws (Date Y 1 1) Map.empty = Some (Inr R)"
       "\<And>x. valid_date x \<Longrightarrow> year x = Y \<Longrightarrow> 1 \<le> yday x \<Longrightarrow> R (yday x) = Some (day_label nws x)"
       "dom R = {1 .. year_days Y}" by auto
  have "build_year_map Y nws = Some (Inr R)" by (simp add: build_year_map_def s R(1))
  moreover have "R (days_between x (Date Y 1 1) + 1) = Some (day_label nws x)" if "valid_date x" "year x = Y" for x
    using R(2)[OF that yday_ge[OF that(1)]] doy_yday[OF that(2)] by simp
  ultimately show ?thesis using R(3) by blast
qed

lemma build_year_map_raises:
  "Y < 1 \<or> 9998 < Y \<Longrightarrow> \<exists>e. build_year_map Y nws = Some (Inl e)"
  by (auto simp: build_year_map_def date_new_def valid_ymd_def split: sum.splits)


text \<open>
  The model of \<open>d + timedelta(days=1)\<close> agrees with the ordinal arithmetic of the
  library: the next day of a valid date has the ordinal one greater.
\<close>

lemma div_step:
  assumes k: "0 < k"
  shows "(y::int) div k = (y - 1) div k + (if y mod k = 0 then 1 else 0)"
proof (cases "y mod k = 0")
  case True
  have "y = k * (y div k)" using True mult_div_mod_eq[of k y] by simp
  then have "y - 1 = k * (y div k - 1) + (k - 1)" by (simp add: right_diff_distrib)
  moreover have "0 \<le> k - 1" "k - 1 < k" using k by simp_all
  ultimately have "(y - 1) div k = y div k - 1"
    by (rule int_div_pos_eq)
  thus ?thesis using True by simp
next
  case False
  have "0 \<le> y mod k" using k by simp
  hence a: "0 \<le> y mod k - 1" using False by linarith
  have b: "y mod k - 1 < k" using pos_mod_bound[OF k, of y] by linarith
  have c: "y - 1 = k * (y div k) + (y mod k - 1)" by simp
  from c a b have "(y - 1) div k = y div k" by (rule int_div_pos_eq)
  thus ?thesis using False by simp
qed

lemma mod_400_100: "(y::int) mod 400 = 0 \<Longrightarrow> y mod 100 = 0"
  using mod_mod_cancel[of 100 400 y] by simp

lemma mod_100_4: "(y::int) mod 100 = 0 \<Longrightarrow> y mod 4 = 0"
  using mod_mod_cancel[of 4 100 y] by simp

lemma days_before_year_step: "days_before_year (y + 1) = days_before_year y + year_days y"
proof -
  have a: "y div 4 = (y - 1) div 4 + (if y mod 4 = 0 then 1 else 0)" by (rule div_step) simp
  have b: "y div 100 = (y - 1) div 100 + (if y mod 100 = 0 then 1 else 0)" by (rule div_step) simp
  have c: "y div 400 = (y - 1) div 400 + (if y mod 400 = 0 then 1 else 0)" by (rule div_step) simp
  have e: "days_before_year (y + 1) = y * 365 + y div 4 - y div 100 + y div 400"
    by (simp add: days_before_year_def)
  have f: "days_before_year y = y * 365 - 365 + (y - 1) div 4 - (y - 1) div 100 + (y - 1) div 400"
    by (simp add: days_before_year_def left_diff_distrib)
  show ?thesis
  proof (cases "y mod 4 = 0")
    case False
    then have n100: "y mod 100 \<noteq> 0" using mod_100_4[of y] by auto
    then have "y mod 400 \<noteq> 0" using mod_400_100[of y] by auto
    note this n100
    with False show ?thesis unfolding e f a b c year_days_def is_leap_def by simp
  next
    case True
    show ?thesis
    proof (cases "y mod 100 = 0")
      case F: False
      then have "y mod 400 \<noteq> 0" using mod_400_100[of y] by auto
      with True F show ?thesis unfolding e f a b c year_days_def is_leap_def by simp
    next
      case T: True
      show ?thesis
      proof (cases "y mod 400 = 0")
        case T4: True
        with True T show ?thesis unfolding e f a b c year_days_def is_leap_def by simp
      next
        case F4: False
        with True T show ?thesis unfolding e f a b c year_days_def is_leap_def by simp
      qed
    qed
  qed
qed

lemma toordinal_add_day:
  assumes "valid_date d" "date_add_day d = Inr d'"
  shows "toordinal d' = toordinal d + 1"
proof (cases "year d \<le> 9998")
  case True
  from add_day_cases[OF assms(1) True] show ?thesis
  proof
    assume "\<exists>x. date_add_day d = Inr x \<and> valid_date x \<and> year x = year d \<and> yday x = yday d + 1"
    with assms(2) show ?thesis by (auto simp: toordinal_def yday_def)
  next
    assume a: "date_add_day d = Inr (Date (year d + 1) 1 1) \<and> yday d = year_days (year d)"
    with assms(2) have "d' = Date (year d + 1) 1 1" by simp
    thus ?thesis using a
      by (simp add: toordinal_def yday_def days_before_year_step days_before_month_def)
  qed
next
  case False
  hence y: "year d = 9999" using assms(1) by (simp add: valid_date_def valid_ymd_def)
  have "day d < days_in_month (year d) (month d) \<or> month d < 12"
    using assms(2) y by (auto simp: date_add_day_def split: if_splits)
  thus ?thesis
  proof
    assume "day d < days_in_month (year d) (month d)"
    thus ?thesis using assms(2) by (auto simp: date_add_day_def toordinal_def)
  next
    assume m: "month d < 12"
    show ?thesis
    proof (cases "day d < days_in_month (year d) (month d)")
      case True
      thus ?thesis using assms(2) by (auto simp: date_add_day_def toordinal_def)
    next
      case F: False
      hence "day d = days_in_month (year d) (month d)"
        using assms(1) by (auto simp: valid_date_def valid_ymd_def)
      moreover have "days_before_month (year d) (month d + 1)
          = days_before_month (year d) (month d) + days_in_month (year d) (month d)"
        using assms(1) m by (intro dbm_step) (auto simp: valid_date_def valid_ymd_def)
      ultimately show ?thesis using assms(2) F m
        by (auto simp: date_add_day_def toordinal_def)
    qed
  qed
qed
lemma weekday_range: "0 \<le> weekday d \<and> weekday d \<le> 6"
  by (simp add: weekday_def)

lemma weekday_2025_01_04: "weekday (Date 2025 1 4) = 5"
  by (simp add: weekday_def toordinal_def days_before_year_def days_before_month_def is_leap_def)

lemma labels_distinct: "WORKING \<noteq> NON_WORKING"
  by (simp add: WORKING_def NON_WORKING_def)

text \<open>
  Claim C1. For every year and every set of exception dates, in the map that
  \<open>build_year_map\<close> returns, every day of the year that is a Saturday or a Sunday
  (\<open>weekday\<close> 5 or 6) is labelled NON_WORKING whether or not it is in the exception set,
  every day in the exception set is labelled NON_WORKING, and every other day is labelled
  WORKING. A map is returned for every year from 1 to 9998 (outside of that range
  \<open>date(year, 1, 1)\<close> or \<open>date(year + 1, 1, 1)\<close> raises, see \<open>build_year_map_raises\<close>).
  The key of a day is its day of the year, \<open>(d - start).days + 1\<close>.
\<close>

theorem build_year_map_classification:
  "(1 \<le> y \<and> y \<le> 9998 \<longrightarrow> (\<exists>m. build_year_map y nonworking = Some (Inr m))) \<and>
   (\<forall>m mo dd dt. build_year_map y nonworking = Some (Inr m) \<and> date_new y mo dd = Inr dt \<longrightarrow>
      (weekday dt = 5 \<or> weekday dt = 6 \<longrightarrow>
         m (days_between dt (Date y 1 1) + 1) = Some NON_WORKING) \<and>
      (dt \<in> nonworking \<longrightarrow>
         m (days_between dt (Date y 1 1) + 1) = Some NON_WORKING) \<and>
      (weekday dt \<noteq> 5 \<and> weekday dt \<noteq> 6 \<and> dt \<notin> nonworking \<longrightarrow>
         m (days_between dt (Date y 1 1) + 1) = Some WORKING))"
proof (cases "1 \<le> y \<and> y \<le> 9998")
  case True
  then obtain R where R: "build_year_map y nonworking = Some (Inr R)"
    "\<And>x. valid_date x \<Longrightarrow> year x = y \<Longrightarrow>
        R (days_between x (Date y 1 1) + 1) = Some (day_label nonworking x)"
    using build_year_map_run[of y nonworking] by blast
  have "R (days_between dt (Date y 1 1) + 1) = Some (day_label nonworking dt)"
    if "date_new y mo dd = Inr dt" for mo dd dt
    using valid_dateD[OF that] R(2)[of dt] by (simp add: valid_date_def)
  moreover have "day_label nonworking dt =
      (if weekday dt = 5 \<or> weekday dt = 6 \<or> dt \<in> nonworking then NON_WORKING else WORKING)" for dt
    using weekday_range[of dt] by (auto simp: day_label_def)
  ultimately show ?thesis using R(1) by auto
next
  case False
  hence "\<exists>e. build_year_map y nonworking = Some (Inl e)"
    using build_year_map_raises[of y nonworking] by auto
  thus ?thesis using False by auto
qed

theorem build_year_map_classification_witness:
  "\<exists>m. build_year_map 2025 {Date 2025 1 4, Date 2025 5 1} = Some (Inr m)
     \<and> m 4 = Some NON_WORKING \<and> m 5 = Some NON_WORKING
     \<and> m 121 = Some NON_WORKING \<and> m 2 = Some WORKING"
proof -
  let ?nw = "{Date 2025 1 4, Date 2025 5 1}"
  note T = build_year_map_classification[of 2025 ?nw]
  from T obtain m where m: "build_year_map 2025 ?nw = Some (Inr m)" by auto
  have d: "date_new 2025 1 4 = Inr (Date 2025 1 4)" "date_new 2025 1 5 = Inr (Date 2025 1 5)"
          "date_new 2025 5 1 = Inr (Date 2025 5 1)" "date_new 2025 1 2 = Inr (Date 2025 1 2)"
    by (simp_all add: date_new_def c_int_def valid_ymd_def days_in_month_def)
  have w: "weekday (Date 2025 1 4) = 5" "weekday (Date 2025 1 5) = 6"
          "weekday (Date 2025 5 1) = 3" "weekday (Date 2025 1 2) = 3"
    by (simp_all add: weekday_def toordinal_def days_before_year_def days_before_month_def is_leap_def)
  have k: "days_between (Date 2025 1 4) (Date 2025 1 1) + 1 = 4"
          "days_between (Date 2025 1 5) (Date 2025 1 1) + 1 = 5"
          "days_between (Date 2025 5 1) (Date 2025 1 1) + 1 = 121"
          "days_between (Date 2025 1 2) (Date 2025 1 1) + 1 = 2"
    by (simp_all add: days_between_def toordinal_def days_before_month_def is_leap_def)
  from T m have U: "\<And>mo dd dt. date_new 2025 mo dd = Inr dt \<Longrightarrow>
      (weekday dt = 5 \<or> weekday dt = 6 \<longrightarrow>
         m (days_between dt (Date 2025 1 1) + 1) = Some NON_WORKING) \<and>
      (dt \<in> ?nw \<longrightarrow>
         m (days_between dt (Date 2025 1 1) + 1) = Some NON_WORKING) \<and>
      (weekday dt \<noteq> 5 \<and> weekday dt \<noteq> 6 \<and> dt \<notin> ?nw \<longrightarrow>
         m (days_between dt (Date 2025 1 1) + 1) = Some WORKING)" by blast
  from U[OF d(1)] w(1) k(1) have "m 4 = Some NON_WORKING" by simp
  moreover from U[OF d(2)] w(2) k(2) have "m 5 = Some NON_WORKING" by simp
  moreover from U[OF d(3)] k(3) have "m 121 = Some NON_WORKING" by simp
  moreover from U[OF d(4)] w(4) k(4) have "m 2 = Some WORKING" by simp
  ultimately show ?thesis using m by blast
qed

text \<open>
  Claim C2. For every year and every set of exception dates, the map that
  \<open>build_year_map\<close> returns has exactly 365 entries for a non-leap year and exactly 366
  for a leap year, and its keys are exactly the integers from 1 to that number. A map is
  returned for every year from 1 to 9998.
\<close>

theorem build_year_map_size:
  "(1 \<le> y \<and> y \<le> 9998 \<longrightarrow> (\<exists>m. build_year_map y nonworking = Some (Inr m))) \<and>
   (\<forall>m. build_year_map y nonworking = Some (Inr m) \<longrightarrow>
      dom m = {1 .. (if is_leap y then 366 else 365)} \<and>
      card (dom m) = (if is_leap y then 366 else 365))"
proof (cases "1 \<le> y \<and> y \<le> 9998")
  case True
  then obtain R where R: "build_year_map y nonworking = Some (Inr R)" "dom R = {1 .. year_days y}"
    using build_year_map_run[of y nonworking] by blast
  thus ?thesis by (auto simp: year_days_def)
next
  case False
  hence "\<exists>e. build_year_map y nonworking = Some (Inl e)"
    using build_year_map_raises[of y nonworking] by auto
  thus ?thesis using False by auto
qed

theorem build_year_map_size_witness:
  "(\<exists>m. build_year_map 2025 {} = Some (Inr m) \<and> dom m = {1 .. 365} \<and> card (dom m) = 365) \<and>
   (\<exists>m. build_year_map 2024 {} = Some (Inr m) \<and> dom m = {1 .. 366} \<and> card (dom m) = 366)"
proof -
  have l: "\<not> is_leap 2025" "is_leap 2024" by (simp_all add: is_leap_def)
  from build_year_map_size[of 2025 "{}"] l(1)
  have a: "\<exists>m. build_year_map 2025 {} = Some (Inr m) \<and> dom m = {1 .. 365} \<and> card (dom m) = 365"
    by auto
  from build_year_map_size[of 2024 "{}"] l(2)
  have b: "\<exists>m. build_year_map 2024 {} = Some (Inr m) \<and> dom m = {1 .. 366} \<and> card (dom m) = 366"
    by auto
  from a b show ?thesis by blast
qed

section \<open>Properties of the four loops\<close>

lemma safe_date_SomeD:
  "safe_date y m d = Inr (Some dt) \<Longrightarrow> dt = Date y m d \<and> valid_ymd y m d"
  by (auto simp: safe_date_def date_new_def split: if_splits sum.splits)

lemma safe_date_NoneD:
  "safe_date y m d = Inr None \<Longrightarrow> \<not> valid_ymd y m d"
  by (auto simp: safe_date_def date_new_def split: if_splits sum.splits)

lemma dates_of_Nil: "dates_of y mo [] = {}"
  by (simp add: dates_of_def)

lemma dates_of_Cons:
  "dates_of y mo (d # ds) = (if valid_ymd y mo d then insert (Date y mo d) (dates_of y mo ds) else dates_of y mo ds)"
  by (auto simp: dates_of_def)

lemma range_days_result:
  "range_days y mo ds nw = Inr nw' \<Longrightarrow> nw' = nw \<union> dates_of y mo ds"
proof (induction ds arbitrary: nw)
  case Nil
  then show ?case by (simp add: dates_of_Nil)
next
  case (Cons d ds)
  show ?case
  proof (cases "safe_date y mo d")
    case (Inl e)
    with Cons.prems show ?thesis by simp
  next
    case (Inr r)
    show ?thesis
    proof (cases r)
      case None
      with Inr Cons.prems have "range_days y mo ds nw = Inr nw'" by simp
      from Cons.IH[OF this] safe_date_NoneD[of y mo d] Inr None show ?thesis
        by (simp add: dates_of_Cons)
    next
      case (Some dt)
      with Inr Cons.prems have "range_days y mo ds (insert dt nw) = Inr nw'" by simp
      from Cons.IH[OF this] safe_date_SomeD[of y mo d dt] Inr Some show ?thesis
        by (auto simp: dates_of_Cons)
    qed
  qed
qed

lemma list_days_result:
  "list_days y mo ds s = Inr s' \<Longrightarrow>
     fst s' = fst s \<union> dates_of y mo ds \<and> (snd s' = (snd s \<or> fst s' \<noteq> fst s))"
proof (induction ds arbitrary: s)
  case Nil
  then show ?case by (simp add: dates_of_Nil)
next
  case (Cons d ds)
  show ?case
  proof (cases "safe_date y mo d")
    case (Inl e)
    with Cons.prems show ?thesis by simp
  next
    case (Inr r)
    show ?thesis
    proof (cases r)
      case None
      with Inr Cons.prems have "list_days y mo ds s = Inr s'" by simp
      from Cons.IH[OF this] safe_date_NoneD[of y mo d] Inr None show ?thesis
        by (simp add: dates_of_Cons)
    next
      case (Some dt)
      note D = safe_date_SomeD[of y mo d dt]
      show ?thesis
      proof (cases "dt \<in> fst s")
        case True
        with Some Inr Cons.prems have "list_days y mo ds s = Inr s'" by simp
        from Cons.IH[OF this] D Inr Some True show ?thesis
          by (auto simp: dates_of_Cons)
      next
        case False
        with Some Inr Cons.prems have "list_days y mo ds (insert dt (fst s), True) = Inr s'" by simp
        from Cons.IH[OF this] D Inr Some False show ?thesis
          by (auto simp: dates_of_Cons)
      qed
    qed
  qed
qed

lemma dates_of_year: "d \<in> dates_of y mo ds \<Longrightarrow> year d = y \<and> valid_date d"
  by (auto simp: dates_of_def valid_date_def)

lemma range_body_adds: "adds_only y (range_body y text)"
  unfolding adds_only_def
proof (intro allI impI)
  fix m a a'
  assume "range_body y text m a = Inr a'"
  then show "fst a \<subseteq> fst a' \<and> (\<forall>d\<in>fst a' - fst a. year d = y \<and> valid_date d)"
    by (auto simp: range_body_def split: sum.splits option.splits if_splits
             dest!: range_days_result dest: dates_of_year)
qed

lemma list_body_adds: "adds_only y (list_body y text)"
  unfolding adds_only_def
proof (intro allI impI)
  fix m a a'
  assume "list_body y text m a = Inr a'"
  then show "fst a \<subseteq> fst a' \<and> (\<forall>d\<in>fst a' - fst a. year d = y \<and> valid_date d)"
    by (auto simp: list_body_def split: sum.splits option.splits if_splits prod.splits
             dest!: list_days_result dest: dates_of_year)
qed

lemma single_body_adds: "adds_only y (single_body y text)"
  unfolding adds_only_def
proof (intro allI impI)
  fix m a a'
  assume "single_body y text m a = Inr a'"
  then show "fst a \<subseteq> fst a' \<and> (\<forall>d\<in>fst a' - fst a. year d = y \<and> valid_date d)"
    by (auto simp: single_body_def valid_date_def split: sum.splits option.splits if_splits
             dest!: safe_date_SomeD)
qed

lemma transfer_body_adds: "adds_only y (transfer_body y text)"
  unfolding adds_only_def
proof (intro allI impI)
  fix m a a'
  assume "transfer_body y text m a = Inr a'"
  then show "fst a \<subseteq> fst a' \<and> (\<forall>d\<in>fst a' - fst a. year d = y \<and> valid_date d)"
    by (auto simp: transfer_body_def valid_date_def split: sum.splits option.splits if_splits
             dest!: safe_date_SomeD)
qed

lemma run_loop_adds:
  assumes "adds_only y body"
  shows "run_loop body ms a = Inr a' \<Longrightarrow>
      fst a \<subseteq> fst a' \<and> (\<forall>d \<in> fst a' - fst a. year d = y \<and> valid_date d)"
proof (induction ms arbitrary: a)
  case Nil
  then show ?case by simp
next
  case (Cons m ms)
  then obtain a1 where a1: "body m a = Inr a1" "run_loop body ms a1 = Inr a'"
    by (auto split: sum.splits)
  from assms a1(1) have s1: "fst a \<subseteq> fst a1" "\<forall>d \<in> fst a1 - fst a. year d = y \<and> valid_date d"
    unfolding adds_only_def by blast+
  from Cons.IH[OF a1(2)] have s2: "fst a1 \<subseteq> fst a'" "\<forall>d \<in> fst a' - fst a1. year d = y \<and> valid_date d"
    by blast+
  from s1 s2 show ?case by blast
qed


text \<open>
  The loop runs the body on every match in order, and the inner loops never raise for
  arguments in the C int range: a date the constructor rejects with ValueError is skipped.
\<close>

lemma run_loop_append:
  "run_loop body (ms1 @ ms2) a =
     (case run_loop body ms1 a of Inl e \<Rightarrow> Inl e | Inr b \<Rightarrow> run_loop body ms2 b)"
  by (induction ms1 arbitrary: a) (auto split: sum.splits)

lemma run_loop_split:
  "run_loop body (ms1 @ m # ms2) a =
     (case run_loop body ms1 a of
        Inl e \<Rightarrow> Inl e
      | Inr b \<Rightarrow> (case body m b of Inl e \<Rightarrow> Inl e | Inr b' \<Rightarrow> run_loop body ms2 b'))"
  by (simp add: run_loop_append split: sum.splits)

lemma safe_date_c_int:
  assumes "c_int y" "c_int mo" "c_int d"
  shows "safe_date y mo d = Inr (if valid_ymd y mo d then Some (Date y mo d) else None)"
  using assms by (simp add: safe_date_def date_new_def)


lemma list_days_total:
  assumes "c_int y" "c_int mo"
  shows "\<forall>d \<in> set ds. c_int d \<Longrightarrow>
     list_days y mo ds s = Inr (fst s \<union> dates_of y mo ds, snd s \<or> \<not> dates_of y mo ds \<subseteq> fst s)"
proof (induction ds arbitrary: s)
  case Nil
  then show ?case by (simp add: dates_of_Nil)
next
  case (Cons d ds)
  from Cons.prems have d: "c_int d" and r: "\<forall>d \<in> set ds. c_int d" by simp_all
  show ?case
    by (auto simp: safe_date_c_int[OF assms d] Cons.IH[OF r] dates_of_Cons)
qed


lemma tokens_days_total: "\<exists>days. tokens_days ts = Inr days"
  by (induction ts) (auto simp: py_int_def)

lemma parse_days_total: "\<exists>days. parse_days raw = Inr days"
  unfolding parse_days_def by (rule tokens_days_total)


section \<open>Evaluation of the extractor on the example texts\<close>

text \<open>Unfolding rules for counted repetition with a numeral count.\<close>

lemma rep_min_numeral:
  "rep_min (numeral v) step k st = step (rep_min (pred_numeral v) step k) st"
  by (simp add: numeral_eq_Suc)

lemma rep_opt_numeral:
  "rep_opt (numeral v) greedy step k st =
     (if greedy
      then (case step (rep_opt (pred_numeral v) greedy step k) st of
              Some r \<Rightarrow> Some r
            | None \<Rightarrow> k st)
      else (case k st of
              Some r \<Rightarrow> Some r
            | None \<Rightarrow> step (rep_opt (pred_numeral v) greedy step k) st))"
  by (simp add: numeral_eq_Suc)

lemmas engine_simps = finditer_def matches_here_def match_here_def accept_def take_char_def
  close_group_def at_boundary_def in_classes_def is_decimal_def is_space_def is_word_def
  is_alnum_def lower_cp_def upper_cp_def seqs_def lit_def re_search_def
  rep_min_numeral rep_opt_numeral

lemmas pattern_defs = RANGE_RE_def LISTED_DAYS_RE_def SINGLE_DAY_RE_def TRANSFER_RE_def
  YEAR_PATTERNS_def DIGIT_RE_def

lemmas extract_defs = extract_nonworking_dates_def detect_year_def range_stage_def
  list_stage_def single_stage_def transfer_stage_def range_body_def list_body_def
  single_body_def transfer_body_def normalize_month_def safe_date_def date_new_def c_int_def
  valid_ymd_def days_in_month_def is_leap_def group_def slice_def str_lower_def
  strip_chars_def str_strip_def str_isdigit_def py_int_def digits_value_def py_str_def
  parse_days_def MONTHS_RU_def fmt_group_def range_note_def list_note_def single_note_def
  transfer_note_def in_window_def TRIGGERS_def

lemmas text_defs = text_range_def text_single_def text_single_trigger_def text_list_def
  text_transfer_def text_calendar_def text_goda_def text_za_def


lemma finditer_list_example:
  "finditer LISTED_DAYS_RE text_list =
     [\<lparr>m_start = 0, m_end = 15, groups = [(''month'', 9, 15), (''days'', 0, 8)]\<rparr>]"
  by (simp add: engine_simps pattern_defs text_defs)

lemma finditer_list_single:
  "finditer LISTED_DAYS_RE text_single =
     [\<lparr>m_start = 0, m_end = 7, groups = [(''month'', 2, 7), (''days'', 0, 1)]\<rparr>]"
  by (simp add: engine_simps pattern_defs text_defs)


lemma extract_list_example:
  "extract_nonworking_dates today text_list (Some 2025) =
     Inr \<lparr>pr_year = 2025, nonworking_dates = {Date 2025 1 1, Date 2025 1 2, Date 2025 1 7},
          pr_notes = [[1055, 1077, 1088, 1077, 1095, 1077, 1085, 1100, 58, 32, 49, 44, 32, 50, 32, 1080, 32, 55, 32, 1103, 1085, 1074, 1072, 1088, 1103]]\<rparr>"
  by (simp add: engine_simps pattern_defs extract_defs text_defs insert_commute)

lemma list_stage_covered_example:
  "list_stage 2025 text_list ({Date 2025 1 1, Date 2025 1 2, Date 2025 1 3, Date 2025 1 4, Date 2025 1 5, Date 2025 1 6, Date 2025 1 7, Date 2025 1 8}, ns) = Inr ({Date 2025 1 1, Date 2025 1 2, Date 2025 1 3, Date 2025 1 4, Date 2025 1 5, Date 2025 1 6, Date 2025 1 7, Date 2025 1 8}, ns)"
  by (simp add: engine_simps pattern_defs extract_defs text_defs)

lemma extract_single_example:
  "extract_nonworking_dates today text_single (Some 2025) =
     Inr \<lparr>pr_year = 2025, nonworking_dates = {Date 2025 3 8},
          pr_notes = [[1055, 1077, 1088, 1077, 1095, 1077, 1085, 1100, 58, 32, 56, 32, 1084, 1072, 1088, 1090, 1072]]\<rparr>"
  by (simp add: engine_simps pattern_defs extract_defs text_defs)

lemma single_no_trigger: "\<not> in_window (str_lower text_single)"
  by (simp add: in_window_def TRIGGERS_def str_lower_def lower_cp_def text_defs)

lemma single_stage_single_example:
  "single_stage 2025 text_single ({}, []) = Inr ({}, [])"
  by (simp add: engine_simps pattern_defs extract_defs text_defs)

lemma extract_single_trigger_example:
  "extract_nonworking_dates today text_single_trigger (Some 2025) =
     Inr \<lparr>pr_year = 2025, nonworking_dates = {Date 2025 3 8},
          pr_notes = [[1055, 1077, 1088, 1077, 1095, 1077, 1085, 1100, 58, 32, 56, 32, 1084, 1072, 1088, 1090, 1072]]\<rparr>"
  by (simp add: engine_simps pattern_defs extract_defs text_defs)

lemma extract_transfer_example:
  "extract_nonworking_dates today text_transfer (Some 2025) =
     Inr \<lparr>pr_year = 2025, nonworking_dates = {Date 2025 1 5, Date 2025 1 8},
          pr_notes = [[1055, 1077, 1088, 1077, 1095, 1077, 1085, 1100, 58, 32, 53, 32, 1103, 1085, 1074, 1072, 1088, 1103],
                      [1055, 1077, 1088, 1077, 1095, 1077, 1085, 1100, 58, 32, 56, 32, 1103, 1085, 1074, 1072, 1088, 1103],
                      [1055, 1077, 1088, 1077, 1085, 1086, 1089, 32, 1085, 1072, 58, 32, 56, 32, 1103, 1085, 1074, 1072, 1088, 1103]]\<rparr>"
  by (simp add: engine_simps pattern_defs extract_defs text_defs insert_commute)

lemma finditer_transfer_example:
  "finditer TRANSFER_RE text_transfer =
     [\<lparr>m_start = 0, m_end = 40,
       groups = [(''to_month'', 34, 40), (''to_day'', 32, 33), (''from_month'', 22, 28),
                 (''from_day'', 20, 21), (''1'', 0, 7)]\<rparr>]"
  by (simp add: engine_simps pattern_defs text_defs)





lemma extract_overflow_example:
  "extract_nonworking_dates today text_single (Some 2147483648) = Inl OverflowError"
  by (simp add: engine_simps pattern_defs extract_defs text_defs)







lemma list_match_groups:
  "normalize_month (group text_list \<lparr>m_start = 0, m_end = 15,
      groups = [(''month'', 9, 15), (''days'', 0, 8)]\<rparr> ''month'') = Inr (Some 1)"
  "group text_list \<lparr>m_start = 0, m_end = 15,
      groups = [(''month'', 9, 15), (''days'', 0, 8)]\<rparr> ''days'' = Some [49, 44, 32, 50, 32, 1080, 32, 55]"
  "re_search DIGIT_RE [49, 44, 32, 50, 32, 1080, 32, 55] \<noteq> None"
  "parse_days [49, 44, 32, 50, 32, 1080, 32, 55] = Inr [1, 2, 7]"
  by (simp_all add: extract_defs engine_simps pattern_defs text_defs)

lemma list_body_example:
  "list_body 2025 text_list \<lparr>m_start = 0, m_end = 15,
      groups = [(''month'', 9, 15), (''days'', 0, 8)]\<rparr> ({Date 2025 1 1}, []) =
     Inr ({Date 2025 1 1, Date 2025 1 2, Date 2025 1 7}, [[1055, 1077, 1088, 1077, 1095, 1077, 1085, 1100, 58, 32, 49, 44, 32, 50, 32, 1080, 32, 55, 32, 1103, 1085, 1074, 1072, 1088, 1103]])"
  by (simp add: extract_defs engine_simps pattern_defs text_defs insert_commute)


lemma list_stage_single_example:
  "list_stage 2025 text_single ({}, []) =
     Inr ({Date 2025 3 8}, [[1055, 1077, 1088, 1077, 1095, 1077, 1085, 1100, 58, 32, 56, 32, 1084, 1072, 1088, 1090, 1072]])"
  by (simp add: engine_simps pattern_defs extract_defs text_defs)

lemmas text_defs2 = text_range_feb_def text_list_feb_def text_two_lists_def text_upper_def text_two_bare_def




lemma extract_list_feb:
  "extract_nonworking_dates today text_list_feb (Some 2025) =
     Inr \<lparr>pr_year = 2025, nonworking_dates = {Date 2025 2 28},
          pr_notes = [[1055, 1077, 1088, 1077, 1095, 1077, 1085, 1100, 58, 32, 51, 48, 32, 1080, 32, 50, 56, 32, 1092, 1077, 1074, 1088, 1072, 1083, 1103]]\<rparr>"
  by (simp add: engine_simps pattern_defs extract_defs text_defs2 insert_commute)

lemma list_feb_groups:
  "normalize_month (group text_list_feb \<lparr>m_start = 0, m_end = 15, groups = [(''month'', 8, 15), (''days'', 0, 7)]\<rparr> ''month'') = Inr (Some 2)"
  "group text_list_feb \<lparr>m_start = 0, m_end = 15, groups = [(''month'', 8, 15), (''days'', 0, 7)]\<rparr> ''days'' = Some [51, 48, 32, 1080, 32, 50, 56]"
  "re_search DIGIT_RE [51, 48, 32, 1080, 32, 50, 56] \<noteq> None"
  "parse_days [51, 48, 32, 1080, 32, 50, 56] = Inr [30, 28]"
  "finditer LISTED_DAYS_RE text_list_feb = [\<lparr>m_start = 0, m_end = 15, groups = [(''month'', 8, 15), (''days'', 0, 7)]\<rparr>]"
  by (simp_all add: engine_simps pattern_defs extract_defs text_defs2)

lemma finditer_two_lists:
  "finditer LISTED_DAYS_RE text_two_lists =
     [\<lparr>m_start = 0, m_end = 9, groups = [(''month'', 6, 9), (''days'', 0, 5)]\<rparr>,
      \<lparr>m_start = 11, m_end = 21, groups = [(''month'', 17, 21), (''days'', 11, 16)]\<rparr>]"
  by (simp add: engine_simps pattern_defs text_defs2)

lemma extract_two_lists:
  "extract_nonworking_dates today text_two_lists (Some 2025) =
     Inr \<lparr>pr_year = 2025, nonworking_dates = {Date 2025 5 1, Date 2025 5 2, Date 2025 6 3, Date 2025 6 4},
          pr_notes = [[1055, 1077, 1088, 1077, 1095, 1077, 1085, 1100, 58, 32, 49, 32, 1080, 32, 50, 32, 1084, 1072, 1103], [1055, 1077, 1088, 1077, 1095, 1077, 1085, 1100, 58, 32, 51, 32, 1080, 32, 52, 32, 1080, 1102, 1085, 1103]]\<rparr>"
  by (simp add: engine_simps pattern_defs extract_defs text_defs2 insert_commute)

lemma extract_upper:
  "extract_nonworking_dates today text_upper (Some 2025) =
     Inr \<lparr>pr_year = 2025, nonworking_dates = {Date 2025 3 8},
          pr_notes = [[1055, 1077, 1088, 1077, 1095, 1077, 1085, 1100, 58, 32, 56, 32, 1052, 1072, 1088, 1090, 1072]]\<rparr>"
  by (simp add: engine_simps pattern_defs extract_defs text_defs2 insert_commute)

lemma finditer_two_bare:
  "finditer LISTED_DAYS_RE text_two_bare =
     [\<lparr>m_start = 0, m_end = 5, groups = [(''month'', 2, 5), (''days'', 0, 1)]\<rparr>,
      \<lparr>m_start = 8, m_end = 13, groups = [(''month'', 10, 13), (''days'', 8, 9)]\<rparr>]"
  by (simp add: engine_simps pattern_defs text_defs2)

lemma list_stage_two_bare:
  "list_stage 2025 text_two_bare ({}, []) =
     Inr ({Date 2025 5 1, Date 2025 5 9},
          [[1055, 1077, 1088, 1077, 1095, 1077, 1085, 1100, 58, 32, 49, 32, 1084, 1072, 1103], [1055, 1077, 1088, 1077, 1095, 1077, 1085, 1100, 58, 32, 57, 32, 1052, 1072, 1103]])"
  by (simp add: engine_simps pattern_defs extract_defs text_defs2 insert_commute)

lemma two_bare_groups:
  "group text_two_bare \<lparr>m_start = 8, m_end = 13, groups = [(''month'', 10, 13), (''days'', 8, 9)]\<rparr> ''days'' = Some [57]"
  "normalize_month (group text_two_bare \<lparr>m_start = 8, m_end = 13, groups = [(''month'', 10, 13), (''days'', 8, 9)]\<rparr> ''month'') = Inr (Some 5)"
  "fmt_group (group text_two_bare \<lparr>m_start = 8, m_end = 13, groups = [(''month'', 10, 13), (''days'', 8, 9)]\<rparr> ''month'') = [1052, 1072, 1103]"
  by (simp_all add: extract_defs text_defs2 lower_cp_def)

lemma two_bare_first:
  "run_loop (list_body 2025 text_two_bare) [\<lparr>m_start = 0, m_end = 5, groups = [(''month'', 2, 5), (''days'', 0, 1)]\<rparr>] ({}, []) = Inr ({Date 2025 5 1}, [[1055, 1077, 1088, 1077, 1095, 1077, 1085, 1100, 58, 32, 49, 32, 1084, 1072, 1103]])"
  by (simp add: extract_defs engine_simps pattern_defs text_defs2)

lemma finditer_list_transfer:
  "finditer LISTED_DAYS_RE text_transfer =
     [\<lparr>m_start = 20, m_end = 28, groups = [(''month'', 22, 28), (''days'', 20, 21)]\<rparr>,
      \<lparr>m_start = 32, m_end = 40, groups = [(''month'', 34, 40), (''days'', 32, 33)]\<rparr>]"
  by (simp add: engine_simps pattern_defs text_defs)

section \<open>The extractor as a whole\<close>

lemma range_stage_adds:
  "range_stage y text a = Inr a' \<Longrightarrow>
     fst a \<subseteq> fst a' \<and> (\<forall>d \<in> fst a' - fst a. year d = y \<and> valid_date d)"
  unfolding range_stage_def by (rule run_loop_adds[OF range_body_adds])

lemma list_stage_adds:
  "list_stage y text a = Inr a' \<Longrightarrow>
     fst a \<subseteq> fst a' \<and> (\<forall>d \<in> fst a' - fst a. year d = y \<and> valid_date d)"
  unfolding list_stage_def by (rule run_loop_adds[OF list_body_adds])

lemma single_stage_adds:
  "single_stage y text a = Inr a' \<Longrightarrow>
     fst a \<subseteq> fst a' \<and> (\<forall>d \<in> fst a' - fst a. year d = y \<and> valid_date d)"
  unfolding single_stage_def by (rule run_loop_adds[OF single_body_adds])

lemma transfer_stage_adds:
  "transfer_stage y text a = Inr a' \<Longrightarrow>
     fst a \<subseteq> fst a' \<and> (\<forall>d \<in> fst a' - fst a. year d = y \<and> valid_date d)"
  unfolding transfer_stage_def by (rule run_loop_adds[OF transfer_body_adds])

lemma extract_stages:
  assumes "extract_nonworking_dates today text year_hint = Inr r"
  shows "\<exists>a1 a2 a3 a4.
           detect_year today text year_hint = Inr (pr_year r) \<and>
           range_stage (pr_year r) text ({}, []) = Inr a1 \<and>
           list_stage (pr_year r) text a1 = Inr a2 \<and>
           single_stage (pr_year r) text a2 = Inr a3 \<and>
           transfer_stage (pr_year r) text a3 = Inr a4 \<and>
           nonworking_dates r = fst a4 \<and> pr_notes r = snd a4"
  using assms unfolding extract_nonworking_dates_def
  by (auto split: sum.splits)

lemma extract_dates_sound:
  assumes "extract_nonworking_dates today text year_hint = Inr r"
  shows "\<forall>d \<in> nonworking_dates r. year d = pr_year r \<and> valid_date d"
proof -
  from extract_stages[OF assms] obtain a1 a2 a3 a4 where
    s: "range_stage (pr_year r) text ({}, []) = Inr a1"
       "list_stage (pr_year r) text a1 = Inr a2"
       "single_stage (pr_year r) text a2 = Inr a3"
       "transfer_stage (pr_year r) text a3 = Inr a4"
       "nonworking_dates r = fst a4" by blast
  from range_stage_adds[OF s(1)] have 1: "\<forall>d \<in> fst a1. year d = pr_year r \<and> valid_date d"
    by simp
  from list_stage_adds[OF s(2)] 1 have 2: "\<forall>d \<in> fst a2. year d = pr_year r \<and> valid_date d"
    by blast
  from single_stage_adds[OF s(3)] 2 have 3: "\<forall>d \<in> fst a3. year d = pr_year r \<and> valid_date d"
    by blast
  from transfer_stage_adds[OF s(4)] 3 have "\<forall>d \<in> fst a4. year d = pr_year r \<and> valid_date d"
    by blast
  with s(5) show ?thesis by simp
qed


lemma months_range: "map_of MONTHS_RU t = Some mo \<Longrightarrow> 1 \<le> mo \<and> mo \<le> 12"
  by (drule map_of_SomeD) (auto simp: MONTHS_RU_def)

lemma normalize_month_range:
  "normalize_month g = Inr (Some mo) \<Longrightarrow> 1 \<le> mo \<and> mo \<le> 12"
  by (auto simp: normalize_month_def split: option.splits dest: months_range)


lemma list_body_result:
  assumes "list_body y text m a = Inr a'"
      and "normalize_month (group text m ''month'') = Inr (Some mo)"
      and "group text m ''days'' = Some raw_days"
      and "raw_days \<noteq> []" "re_search DIGIT_RE raw_days \<noteq> None"
      and "parse_days raw_days = Inr days"
  shows "fst a' = fst a \<union> dates_of y mo days
       \<and> snd a' = (if fst a' \<noteq> fst a
                    then snd a @ [list_note raw_days (fmt_group (group text m ''month''))]
                    else snd a)"
proof (cases "days = []")
  case True
  from normalize_month_range[OF assms(2)] have "mo \<noteq> 0" by simp
  with True assms have "a' = a" by (auto simp: list_body_def)
  with True show ?thesis by (simp add: dates_of_Nil)
next
  case False
  from normalize_month_range[OF assms(2)] have "mo \<noteq> 0" by simp
  with False assms obtain nw added_any where
    r: "list_days y mo days (fst a, False) = Inr (nw, added_any)"
       "a' = (if added_any
              then (nw, snd a @ [list_note raw_days (fmt_group (group text m ''month''))])
              else (nw, snd a))"
    by (auto simp: list_body_def split: sum.splits prod.splits if_splits)
  from list_days_result[OF r(1)] have "nw = fst a \<union> dates_of y mo days" "added_any = (nw \<noteq> fst a)"
    by simp_all
  with r(2) show ?thesis by auto
qed




lemma list_body_total:
  assumes "normalize_month (group text m ''month'') = Inr (Some mo)"
      and "group text m ''days'' = Some raw_days"
      and "raw_days \<noteq> []" "re_search DIGIT_RE raw_days \<noteq> None"
      and "parse_days raw_days = Inr days"
      and "c_int y" "\<forall>d \<in> set days. c_int d"
  shows "list_body y text m a =
     Inr (fst a \<union> dates_of y mo days,
          if dates_of y mo days \<subseteq> fst a then snd a
          else snd a @ [list_note raw_days (fmt_group (group text m ''month''))])"
proof -
  from normalize_month_range[OF assms(1)] have mo: "mo \<noteq> 0" "c_int mo"
    by (simp_all add: c_int_def)
  from assms(4) obtain z where z: "re_search DIGIT_RE raw_days = Some z" by auto
  have l: "list_days y mo days (fst a, False) =
      Inr (fst a \<union> dates_of y mo days, \<not> dates_of y mo days \<subseteq> fst a)"
    using list_days_total[OF assms(6) mo(2) assms(7), of "(fst a, False)"] by simp
  show ?thesis
  proof (cases "days = []")
    case True
    then show ?thesis
      by (simp add: list_body_def assms(1,2,3,5) z mo(1) dates_of_Nil)
  next
    case False
    then show ?thesis
      by (simp add: list_body_def assms(1,2,3,5) z mo(1) l)
  qed
qed

lemma list_stage_member:
  assumes f: "finditer LISTED_DAYS_RE t = ms1 @ m # ms2"
      and s: "list_stage y t a = Inr a'"
  shows "\<exists>b b'. run_loop (list_body y t) ms1 a = Inr b \<and> list_body y t m b = Inr b'
           \<and> run_loop (list_body y t) ms2 b' = Inr a' \<and> fst b' \<subseteq> fst a'"
proof -
  from s have "run_loop (list_body y t) (ms1 @ m # ms2) a = Inr a'"
    by (simp add: list_stage_def f)
  then obtain b b' where r: "run_loop (list_body y t) ms1 a = Inr b" "list_body y t m b = Inr b'"
      "run_loop (list_body y t) ms2 b' = Inr a'"
    unfolding run_loop_split by (auto split: sum.splits)
  from run_loop_adds[OF list_body_adds r(3)] have "fst b' \<subseteq> fst a'" by simp
  with r show ?thesis by blast
qed

section \<open>The list pattern on a bare day-and-month mention\<close>

text \<open>The classes of the list pattern on white space, digits and Russian letters.\<close>

lemma caseless:
  assumes "x < 65 \<or> (122 < x \<and> x < 1024) \<or> 1327 < x"
  shows "lower_cp x = x" "upper_cp x = x"
proof -
  have n: "\<not> (65 \<le> x \<and> x \<le> 90)" "\<not> (1040 \<le> x \<and> x \<le> 1071)"
      "\<not> (1024 \<le> x \<and> x \<le> 1039)" "x \<noteq> 1216" "\<not> (1120 \<le> x \<and> x \<le> 1153)"
      "\<not> (1162 \<le> x \<and> x \<le> 1215)" "\<not> (1232 \<le> x \<and> x \<le> 1327)"
      "\<not> (1217 \<le> x \<and> x \<le> 1230)" "\<not> (97 \<le> x \<and> x \<le> 122)"
      "\<not> (1072 \<le> x \<and> x \<le> 1103)" "\<not> (1104 \<le> x \<and> x \<le> 1119)" "x \<noteq> 1231"
    using assms by linarith+
  show "lower_cp x = x" unfolding lower_cp_def using n by auto
  show "upper_cp x = x" unfolding upper_cp_def using n by auto
qed

lemma space_caseless:
  assumes "is_space x"
  shows "x < 65 \<or> (122 < x \<and> x < 1024) \<or> 1327 < x"
  using assms unfolding is_space_def by linarith

lemma space_cls:
  assumes "is_space x"
  shows "in_classes True False [CSpace] x" "\<not> in_classes True False [CDigit] x"
        "\<not> in_classes True False [CChar 44] x" "\<not> in_classes True False [CChar 1080] x"
        "\<not> in_classes True False [CRange 1072 1103] x"
proof -
  note c = caseless[OF space_caseless[OF assms]]
  have l: "lower_cp 44 = 44" "lower_cp 1080 = 1080" by (simp_all add: lower_cp_def)
  have n: "x \<noteq> 44" "x \<noteq> 1080" "\<not> (1072 \<le> x \<and> x \<le> 1103)" "\<not> is_decimal x"
    using assms unfolding is_space_def is_decimal_def by linarith+
  show "in_classes True False [CSpace] x" using assms by (simp add: in_classes_def)
  show "\<not> in_classes True False [CDigit] x" using n by (simp add: in_classes_def)
  show "\<not> in_classes True False [CChar 44] x" using n by (simp add: in_classes_def c l)
  show "\<not> in_classes True False [CChar 1080] x" using n by (simp add: in_classes_def c l)
  show "\<not> in_classes True False [CRange 1072 1103] x" using n by (simp add: in_classes_def c)
qed

lemma digit_cls:
  assumes "is_decimal d"
  shows "in_classes True False [CDigit] d" "\<not> in_classes True False [CSpace] d"
        "\<not> in_classes True False [CChar 44] d" "\<not> in_classes True False [CChar 1080] d"
  using assms
  by (auto simp: in_classes_def is_decimal_def is_space_def lower_cp_def)

lemma letter_lower:
  assumes "is_ru_letter c"
  shows "1072 \<le> lower_cp c" "lower_cp c \<le> 1103"
  using assms by (auto simp: is_ru_letter_def lower_cp_def)

lemma letter_cls:
  assumes "is_ru_letter c"
  shows "in_classes True False [CRange 1072 1103] c" "\<not> in_classes True False [CSpace] c"
        "\<not> in_classes True False [CDigit] c" "\<not> in_classes True False [CChar 44] c"
        "is_word c"
proof -
  have l: "lower_cp 44 = 44" by (simp add: lower_cp_def)
  have r: "1040 \<le> c" "c \<le> 1103" using assms by (simp_all add: is_ru_letter_def)
  show "in_classes True False [CRange 1072 1103] c"
    using letter_lower[OF assms] by (simp add: in_classes_def)
  show "\<not> in_classes True False [CSpace] c"
  proof -
    have "\<not> is_space c" using r unfolding is_space_def by linarith
    then show ?thesis by (simp add: in_classes_def)
  qed
  show "\<not> in_classes True False [CDigit] c"
    using r by (simp add: in_classes_def is_decimal_def)
  show "\<not> in_classes True False [CChar 44] c"
    using r letter_lower[OF assms] by (simp add: in_classes_def l)
  show "is_word c" using r by (simp add: is_word_def is_alnum_def)
qed

lemma lower_cp_in_range: "1072 \<le> lower_cp c \<Longrightarrow> lower_cp c \<le> 1103 \<Longrightarrow> 1040 \<le> c \<and> c \<le> 1103"
  unfolding lower_cp_def by (auto split: if_splits)

lemma upper_cp_in_range: "1072 \<le> upper_cp c \<Longrightarrow> upper_cp c \<le> 1103 \<Longrightarrow> 1040 \<le> c \<and> c \<le> 1103"
  unfolding upper_cp_def by (auto split: if_splits)

lemma range_is_word:
  assumes "in_classes True False [CRange 1072 1103] c"
  shows "is_word c"
proof -
  from assms have "(1072 \<le> c \<and> c \<le> 1103) \<or> (1072 \<le> lower_cp c \<and> lower_cp c \<le> 1103)
      \<or> (1072 \<le> upper_cp c \<and> upper_cp c \<le> 1103)"
    by (simp add: in_classes_def)
  with lower_cp_in_range[of c] upper_cp_in_range[of c] have "1040 \<le> c \<and> c \<le> 1103" by linarith
  then show ?thesis by (simp add: is_word_def is_alnum_def)
qed

lemma take_char_Cons:
  "take_char p k (MState pos prev (c # cs) g) =
     (if p c then k (MState (pos + 1) (Some c) cs g) else None)"
  by (simp add: take_char_def)

lemma take_char_Nil: "take_char p k (MState pos prev [] g) = None"
  by (simp add: take_char_def)

text \<open>
  Greedy runs over a class. If the rest of the pattern succeeds after the longest run,
  that is the result; if the rest of the pattern fails wherever the next code point is in
  the class, the result is what the rest of the pattern gives after the longest run.
\<close>

lemma greedy_run:
  assumes "\<forall>x \<in> set xs. in_classes ic da cs x"
      and "length xs \<le> n"
      and "post = [] \<or> \<not> in_classes ic da cs (hd post)"
      and "k (MState (pos + length xs) (if xs = [] then prev else Some (last xs)) post g) = Some r"
  shows "rep_opt n True (take_char (in_classes ic da cs)) k (MState pos prev (xs @ post) g) = Some r"
  using assms
proof (induction xs arbitrary: n pos prev)
  case Nil
  show ?case
  proof (cases n)
    case 0
    with Nil show ?thesis by simp
  next
    case (Suc n')
    have "take_char (in_classes ic da cs) kk (MState pos prev post g) = None" for kk
      using Nil.prems(3) by (cases post) (auto simp: take_char_Cons take_char_Nil)
    with Suc Nil show ?thesis by simp
  qed
next
  case (Cons x xs)
  then obtain n' where n: "n = Suc n'" "length xs \<le> n'" by (cases n) auto
  have k: "k (MState (pos + 1 + length xs) (if xs = [] then Some x else Some (last xs)) post g) = Some r"
    using Cons.prems(4) by (cases "xs = []") (simp_all add: add.assoc)
  from Cons.IH[of n' "pos + 1" "Some x"] Cons.prems(1,3) n(2) k
  have "rep_opt n' True (take_char (in_classes ic da cs)) k (MState (pos + 1) (Some x) (xs @ post) g) = Some r"
    by simp
  with Cons.prems(1) n(1) show ?case by (simp add: take_char_Cons)
qed

lemma rep_opt_skip:
  assumes "\<not> cls x"
  shows "rep_opt n True (take_char cls) k (MState q qv (x # r) g) = k (MState q qv (x # r) g)"
  using assms by (cases n) (simp_all add: take_char_Cons)

lemma rep_opt_step_fails:
  assumes "\<And>kk. step kk st = None"
  shows "rep_opt n True step k st = k st"
  by (cases n) (simp_all add: assms)

lemma run_none:
  assumes "\<forall>x \<in> set xs. cls x"
      and "post = [] \<or> \<not> cls (hd post)"
      and "\<And>q qv x r g'. cls x \<Longrightarrow> k (MState q qv (x # r) g') = None"
      and "k (MState (pos + length xs) (if xs = [] then prev else Some (last xs)) post g) = None"
  shows "rep_opt n True (take_char cls) k (MState pos prev (xs @ post) g) = None"
  using assms(1,4)
proof (induction xs arbitrary: n pos prev)
  case Nil
  have "take_char cls kk (MState pos prev post g) = None" for kk
    using assms(2) by (cases post) (auto simp: take_char_Cons take_char_Nil)
  with Nil show ?case by (cases n) simp_all
next
  case (Cons x xs)
  have x: "cls x" using Cons.prems(1) by simp
  have f: "k (MState pos prev (x # xs @ post) g) = None" by (rule assms(3)[OF x])
  show ?case
  proof (cases n)
    case 0
    with f show ?thesis by simp
  next
    case (Suc n')
    have e: "k (MState (pos + 1 + length xs) (if xs = [] then Some x else Some (last xs)) post g) = None"
      using Cons.prems(2) by (cases "xs = []") (simp_all add: add.assoc)
    from Cons.IH[of "pos + 1" "Some x" n'] Cons.prems(1) e
    have "rep_opt n' True (take_char cls) k (MState (pos + 1) (Some x) (xs @ post) g) = None"
      by simp
    with Suc x f show ?thesis by (simp add: take_char_Cons)
  qed
qed

lemma run_eq:
  assumes "\<forall>x \<in> set xs. cls x"
      and "length xs \<le> n"
      and "post = [] \<or> \<not> cls (hd post)"
      and "\<And>q qv x r g'. cls x \<Longrightarrow> k (MState q qv (x # r) g') = None"
  shows "rep_opt n True (take_char cls) k (MState pos prev (xs @ post) g)
       = k (MState (pos + length xs) (if xs = [] then prev else Some (last xs)) post g)"
  using assms(1,2)
proof (induction xs arbitrary: n pos prev)
  case Nil
  have "take_char cls kk (MState pos prev post g) = None" for kk
    using assms(3) by (cases post) (auto simp: take_char_Cons take_char_Nil)
  then show ?case by (cases n) simp_all
next
  case (Cons x xs)
  then obtain n' where n: "n = Suc n'" "length xs \<le> n'" by (cases n) auto
  have x: "cls x" using Cons.prems(1) by simp
  have f: "k (MState pos prev (x # xs @ post) g) = None" by (rule assms(4)[OF x])
  from Cons.IH[of n' "pos + 1" "Some x"] Cons.prems(1) n(2)
  have "rep_opt n' True (take_char cls) k (MState (pos + 1) (Some x) (xs @ post) g)
      = k (MState (pos + 1 + length xs) (if xs = [] then Some x else Some (last xs)) post g)"
    by simp
  with n(1) x f show ?case
    by (cases "xs = []") (simp_all add: take_char_Cons add.assoc split: option.splits)
qed

lemma in_space: "in_classes True False [CSpace] x = is_space x"
  by (simp add: in_classes_def)

lemma comma_run:
  assumes w: "\<forall>x \<in> set xs. is_space x" and m: "is_ru_letter m1"
  shows "rep_opt n True (take_char (in_classes True False [CSpace]))
           (take_char (in_classes True False [CChar 44]) kk)
           (MState q qv (xs @ m1 # rst) g') = None"
proof (rule run_none)
  show "\<forall>x \<in> set xs. in_classes True False [CSpace] x" using w by (simp add: in_space)
  show "m1 # rst = [] \<or> \<not> in_classes True False [CSpace] (hd (m1 # rst))"
    using letter_cls(2)[OF m] by simp
  show "take_char (in_classes True False [CChar 44]) kk (MState q' qv' (x # r) g'') = None"
    if "in_classes True False [CSpace] x" for q' qv' x r g''
    using that space_cls(3)[of x] by (simp add: take_char_Cons in_space)
  show "take_char (in_classes True False [CChar 44]) kk
      (MState (q + length xs) (if xs = [] then qv else Some (last xs)) (m1 # rst) g') = None"
    using letter_cls(4)[OF m] by (simp add: take_char_Cons)
qed

lemma conj_run:
  assumes w: "\<forall>x \<in> set xs. is_space x" and m: "is_ru_letter m1" "is_ru_letter m2"
  shows "rep_opt n True (take_char (in_classes True False [CSpace]))
           (take_char (in_classes True False [CChar 1080])
              (rep_opt n' True (take_char (in_classes True False [CSpace]))
                 (take_char (in_classes True False [CDigit]) X)))
           (MState q qv (xs @ m1 # m2 # rst) g') = None"
proof (rule run_none)
  show "\<forall>x \<in> set xs. in_classes True False [CSpace] x" using w by (simp add: in_space)
  show "m1 # m2 # rst = [] \<or> \<not> in_classes True False [CSpace] (hd (m1 # m2 # rst))"
    using letter_cls(2)[OF m(1)] by simp
  show "take_char (in_classes True False [CChar 1080])
          (rep_opt n' True (take_char (in_classes True False [CSpace]))
             (take_char (in_classes True False [CDigit]) X)) (MState q' qv' (x # r) g'') = None"
    if "in_classes True False [CSpace] x" for q' qv' x r g''
    using that space_cls(4)[of x] by (simp add: take_char_Cons in_space)
  show "take_char (in_classes True False [CChar 1080])
          (rep_opt n' True (take_char (in_classes True False [CSpace]))
             (take_char (in_classes True False [CDigit]) X))
      (MState (q + length xs) (if xs = [] then qv else Some (last xs)) (m1 # m2 # rst) g') = None"
    using letter_cls(2,3)[OF m(2)] by (simp add: take_char_Cons rep_opt_skip)
qed

lemma space_run:
  assumes w: "\<forall>x \<in> set xs. is_space x" "length xs \<le> n" and m: "is_ru_letter m1"
      and K: "\<And>q qv x r g'. is_space x \<Longrightarrow> K (MState q qv (x # r) g') = None"
  shows "rep_opt n True (take_char (in_classes True False [CSpace])) K
           (MState q qv (xs @ m1 # rst) g')
       = K (MState (q + length xs) (if xs = [] then qv else Some (last xs)) (m1 # rst) g')"
proof (rule run_eq)
  show "\<forall>x \<in> set xs. in_classes True False [CSpace] x" using w by (simp add: in_space)
  show "length xs \<le> n" by (rule w(2))
  show "m1 # rst = [] \<or> \<not> in_classes True False [CSpace] (hd (m1 # rst))"
    using letter_cls(2)[OF m] by simp
  show "K (MState q' qv' (x # r) g'') = None"
    if "in_classes True False [CSpace] x" for q' qv' x r g''
    using that K by (simp add: in_space)
qed

text \<open>The match of the list pattern at a mention.\<close>

lemma match_re_Chars_eta: "match_re ic da len (Chars cs) = take_char (in_classes ic da cs)"
  by (rule ext)+ simp

lemma match_re_Seq_eta:
  "match_re ic da len (Seq a b) k = match_re ic da len a (match_re ic da len b k)"
  by (rule ext) simp

lemma match_re_Eps_eta: "match_re ic da len Eps k = k"
  by (rule ext) simp

lemma match_re_Rep_eta:
  "match_re ic da len (Rep lo hi greedy a) k =
     rep_min lo (match_re ic da len a)
       (rep_opt (case hi of None \<Rightarrow> len | Some h \<Rightarrow> h - lo) greedy (match_re ic da len a) k)"
  by (rule ext) simp

lemma rep_min_0_eta: "rep_min 0 step k = k"
  by (rule ext) simp

lemma rep_min_Suc_eta: "rep_min (Suc n) step k = step (rep_min n step k)"
  by (rule ext) simp

lemmas eta_simps = match_re_Chars_eta match_re_Seq_eta match_re_Eps_eta match_re_Rep_eta
  rep_min_0_eta rep_min_Suc_eta

lemma listed_tree: "tree LISTED_DAYS_RE = Seq DAYS_PART (Seq WS1 MONTH_REST)"
  by (simp add: LISTED_DAYS_RE_def seqs_def DAYS_PART_def WS1_def MONTH_REST_def MON_def)

lemma days_part_ws:
  assumes d: "is_decimal d1" "is_decimal d2" "ds = [d1] \<or> ds = [d1, d2]"
      and w: "\<forall>x \<in> set (w1 # ws). is_space x" "length ws \<le> len"
      and m: "is_ru_letter m1" "is_ru_letter m2"
      and K: "\<And>q qv x r g'. is_space x \<Longrightarrow> K (MState q qv (x # r) g') = None"
  shows "match_re True False len DAYS_PART (match_re True False len WS1 K)
           (MState p pv (ds @ w1 # ws @ m1 # m2 # rst) g)
         = K (MState (p + length ds + 1 + length ws) (Some (last (w1 # ws))) (m1 # m2 # rst)
                ((''days'', p, p + length ds) # g))"
proof -
  let ?SP = "take_char (in_classes True False [CSpace])"
  let ?DG = "take_char (in_classes True False [CDigit])"
  let ?CM = "take_char (in_classes True False [CChar 44])"
  let ?II = "take_char (in_classes True False [CChar 1080])"
  let ?ITER = "Seq (Rep 1 (Some 2) True (Chars [CDigit])) (Seq (Rep 0 None True (Chars [CSpace])) (Seq (Chars [CChar 44]) (Seq (Rep 0 None True (Chars [CSpace])) Eps)))"
  have w1: "is_space w1" and ws: "\<forall>x \<in> set ws. is_space x" using w(1) by simp_all
  have a: "rep_opt n True ?SP (?CM kk) (MState q qv (w1 # ws @ m1 # m2 # rst) g') = None"
    for n kk q qv g'
    using comma_run[of "w1 # ws" m1 n kk q qv "m2 # rst" g'] w(1) m(1) by simp
  have b: "rep_opt n True ?SP (?II (rep_opt n' True ?SP (?DG X))) (MState q qv (w1 # ws @ m1 # m2 # rst) g') = None"
    for n n' X q qv g'
    using conj_run[of "w1 # ws" m1 m2 n n' X q qv rst g'] w(1) m by simp
  have c: "rep_opt len True ?SP K (MState q qv (ws @ m1 # m2 # rst) g')
      = K (MState (q + length ws) (if ws = [] then qv else Some (last ws)) (m1 # m2 # rst) g')"
    for q qv g'
    using space_run[of ws len m1 K q qv "m2 # rst" g'] ws w(2) m(1) K by blast
  have iter: "match_re True False len ?ITER kk (MState p pv (ds @ w1 # ws @ m1 # m2 # rst) g') = None"
    for kk g'
  proof -
    from d(3) show ?thesis
    proof
      assume "ds = [d1]"
      then show ?thesis
        by (simp add: eta_simps take_char_Cons digit_cls[OF d(1)] space_cls[OF w1] a rep_opt_skip)
    next
      assume "ds = [d1, d2]"
      then show ?thesis
        by (simp add: eta_simps take_char_Cons digit_cls[OF d(1)] digit_cls[OF d(2)]
              space_cls[OF w1] a rep_opt_skip)
    qed
  qed
  have star: "rep_opt len True (match_re True False len ?ITER) k1 (MState p pv (ds @ w1 # ws @ m1 # m2 # rst) g') = k1 (MState p pv (ds @ w1 # ws @ m1 # m2 # rst) g')"
    for k1 g'
    by (rule rep_opt_step_fails) (rule iter)
  have main: "match_re True False len DAYS_PART (match_re True False len WS1 K)
           (MState p pv (ds @ w1 # ws @ m1 # m2 # rst) g)
     = match_re True False len (Rep 1 (Some 2) True (Chars [CDigit]))
         (match_re True False len
            (Seq (Rep 0 (Some 1) True (Seq (Rep 0 None True (Chars [CSpace])) (Seq (Chars [CChar 1080]) (Seq (Rep 0 None True (Chars [CSpace])) (Seq (Rep 1 (Some 2) True (Chars [CDigit])) Eps))))) Eps)
            (close_group ''days'' p (match_re True False len WS1 K)))
         (MState p pv (ds @ w1 # ws @ m1 # m2 # rst) g)"
    unfolding DAYS_PART_def seqs_def
    by (simp only: foldr.simps o_apply id_apply match_re.simps rep_min.simps star mstate.sel option.case)
  from d(3) show ?thesis
  proof
    assume D: "ds = [d1]"
    show ?thesis
      unfolding main unfolding D WS1_def
      by (simp add: eta_simps take_char_Cons close_group_def digit_cls[OF d(1)]
            space_cls[OF w1] b c rep_opt_skip)
  next
    assume D: "ds = [d1, d2]"
    show ?thesis
      unfolding main unfolding D WS1_def
      by (simp add: eta_simps take_char_Cons close_group_def digit_cls[OF d(1)] digit_cls[OF d(2)]
            space_cls[OF w1] b c rep_opt_skip split: option.splits)
  qed
qed

lemma month_rest_gen:
  assumes mon: "mon \<noteq> []" "\<forall>c \<in> set mon. is_ru_letter c"
      and post: "post = [] \<or> \<not> is_word (hd post)"
      and len: "length mon \<le> Suc len"
      and adv: "\<not> adv \<or> s < p"
  shows "match_re True False len MONTH_REST (accept adv s) (MState p pv (mon @ post) g)
         = Some (MState (p + length mon) (Some (last mon)) post ((''month'', p, p + length mon) # g))"
proof -
  from mon(1) obtain m1 ms where M: "mon = m1 # ms" by (cases mon) auto
  let ?cls = "in_classes True False [CRange 1072 1103]"
  let ?K = "close_group ''month'' p (match_re True False len (Seq WordB Eps) (accept adv s))"
  let ?end = "MState (p + 1 + length ms) (if ms = [] then Some m1 else Some (last ms)) post g"
  have w: "is_word (last mon)" using mon letter_cls(5) by (meson last_in_set)
  have b: "at_boundary (MState (p + length mon) (Some (last mon)) post gg)" for gg
    using post w by (cases post) (auto simp: at_boundary_def)
  have e: "?end = MState (p + length mon) (Some (last mon)) post g"
    by (simp add: M)
  have k: "?K ?end = Some (MState (p + length mon) (Some (last mon)) post ((''month'', p, p + length mon) # g))"
    unfolding e using adv b by (auto simp: close_group_def accept_def)
  have pc: "post = [] \<or> \<not> ?cls (hd post)"
    using post range_is_word by blast
  have run: "rep_opt len True (take_char ?cls) ?K (MState (p + 1) (Some m1) (ms @ post) g)
      = Some (MState (p + length mon) (Some (last mon)) post ((''month'', p, p + length mon) # g))"
  proof (rule greedy_run)
    show "\<forall>x \<in> set ms. ?cls x" using mon(2) M letter_cls(1) by auto
    show "length ms \<le> len" using len M by simp
    show "post = [] \<or> \<not> ?cls (hd post)" by (rule pc)
    show "?K ?end = Some (MState (p + length mon) (Some (last mon)) post ((''month'', p, p + length mon) # g))"
      by (rule k)
  qed
  have c1: "?cls m1" using mon(2) M letter_cls(1) by auto
  show ?thesis
    unfolding MONTH_REST_def MON_def
    using run by (simp add: M take_char_Cons c1 match_re_Chars_eta)
qed

lemma month_rest_space:
  assumes "is_space x"
  shows "match_re True False len MONTH_REST kk (MState q qv (x # r) g') = None"
  unfolding MONTH_REST_def MON_def
  by (simp add: take_char_Cons space_cls(5)[OF assms])

lemma listed_match_here_gen:
  assumes d: "is_decimal d1" "is_decimal d2" "ds = [d1] \<or> ds = [d1, d2]"
      and w: "ws \<noteq> []" "\<forall>x \<in> set ws. is_space x"
      and mon: "2 \<le> length mon" "\<forall>c \<in> set mon. is_ru_letter c"
      and post: "post = [] \<or> \<not> is_word (hd post)"
      and len: "length ws + length mon \<le> len"
  shows "match_here LISTED_DAYS_RE len False (MState p pv (ds @ ws @ mon @ post) []) =
     Some \<lparr>m_start = p, m_end = p + length ds + length ws + length mon,
           groups = [(''month'', p + length ds + length ws, p + length ds + length ws + length mon),
                     (''days'', p, p + length ds)]\<rparr>"
proof -
  from mon(1) obtain m1 r1 where M1: "mon = m1 # r1" "1 \<le> length r1" by (cases mon) auto
  then obtain m2 rst where M2: "r1 = m2 # rst" by (cases r1) auto
  have M: "mon = m1 # m2 # rst" using M1 M2 by simp
  from w(1) obtain w1 wr where W: "ws = w1 # wr" by (cases ws) auto
  have m12: "is_ru_letter m1" "is_ru_letter m2" using mon(2) M by auto
  define K where "K = match_re True False len MONTH_REST (accept False p)"
  define st2 where "st2 = MState (p + length ds + length ws) (Some (last ws)) (mon @ post) [(''days'', p, p + length ds)]"
  have Kf: "K (MState q qv (x # r) g') = None" if "is_space x" for q qv x r g'
    unfolding K_def by (rule month_rest_space[OF that])
  have wl: "\<forall>x \<in> set (w1 # wr). is_space x" "length wr \<le> len" using w(2) W len by simp_all
  have dp: "match_re True False len DAYS_PART (match_re True False len WS1 K)
           (MState p pv (ds @ w1 # wr @ m1 # m2 # (rst @ post)) [])
         = K (MState (p + length ds + 1 + length wr) (Some (last (w1 # wr))) (m1 # m2 # (rst @ post))
                ((''days'', p, p + length ds) # []))"
    using days_part_ws[of d1 d2 ds w1 wr len m1 m2 K p pv "rst @ post" "[]"] d wl m12 Kf
    by blast
  have 1: "match_re True False len (tree LISTED_DAYS_RE) (accept False p) (MState p pv (ds @ ws @ mon @ post) [])
      = K st2"
    unfolding listed_tree match_re_Seq_eta K_def[symmetric]
    using dp unfolding st2_def M W by (simp add: add.assoc)
  have 2: "K st2 = Some (MState (p + length ds + length ws + length mon) (Some (last mon)) post
        [(''month'', p + length ds + length ws, p + length ds + length ws + length mon), (''days'', p, p + length ds)])"
    unfolding K_def st2_def
  proof (rule month_rest_gen)
    show "mon \<noteq> []" using M by simp
    show "\<forall>c \<in> set mon. is_ru_letter c" by (rule mon(2))
    show "post = [] \<or> \<not> is_word (hd post)" by (rule post)
    show "length mon \<le> Suc len" using len by simp
    show "\<not> False \<or> p < p + length ds + length ws" by simp
  qed
  have flags: "ignorecase LISTED_DAYS_RE = True" "dotall LISTED_DAYS_RE = False"
    by (simp_all add: LISTED_DAYS_RE_def)
  show ?thesis
    by (simp add: match_here_def flags 1 2)
qed

text \<open>
  The matches that \<open>finditer\<close> finds before a position, and the attempt at that
  position.
\<close>

lemma matches_here_start:
  "m \<in> set (matches_here p len skip st) \<Longrightarrow> m_start m = m_pos st"
  by (auto simp: matches_here_def match_here_def split: if_splits option.splits)

lemma finditer_prefix:
  "\<exists>ms1 skip'. finditer_from p len skip pos prev (pre @ x # rest) =
       ms1 @ finditer_from p len skip' (pos + length pre)
               (if pre = [] then prev else Some (last pre)) (x # rest)
     \<and> (\<forall>m \<in> set ms1. m_start m < pos + length pre)
     \<and> (skip' = skip \<or> (\<exists>m \<in> set ms1. skip' = m_end m))"
proof (induction pre arbitrary: skip pos prev)
  case Nil
  show ?case by (rule exI[of _ "[]"], rule exI[of _ skip]) simp
next
  case (Cons c pre)
  define mm where "mm = matches_here p len skip (MState pos prev (c # pre @ x # rest) [])"
  have st: "\<forall>m \<in> set mm. m_start m = pos"
    unfolding mm_def using matches_here_start[of _ p len skip "MState pos prev (c # pre @ x # rest) []"]
    by simp
  show ?case
  proof (cases mm)
    case Nil
    from Cons.IH[of skip "pos + 1" "Some c"] obtain ms1 skip' where
      r: "finditer_from p len skip (pos + 1) (Some c) (pre @ x # rest) =
           ms1 @ finditer_from p len skip' (pos + 1 + length pre)
               (if pre = [] then Some c else Some (last pre)) (x # rest)"
         "\<forall>m \<in> set ms1. m_start m < pos + 1 + length pre"
         "skip' = skip \<or> (\<exists>m \<in> set ms1. skip' = m_end m)" by blast
    have "finditer_from p len skip pos prev ((c # pre) @ x # rest) =
         ms1 @ finditer_from p len skip' (pos + length (c # pre))
               (if c # pre = [] then prev else Some (last (c # pre))) (x # rest)"
      using r(1) Nil unfolding mm_def by (simp add: add.assoc)
    moreover have "\<forall>m \<in> set ms1. m_start m < pos + length (c # pre)" using r(2) by simp
    ultimately show ?thesis using r(3) by blast
  next
    case (Cons m ms)
    from Cons.IH[of "m_end (last mm)" "pos + 1" "Some c"] obtain ms1 skip' where
      r: "finditer_from p len (m_end (last mm)) (pos + 1) (Some c) (pre @ x # rest) =
           ms1 @ finditer_from p len skip' (pos + 1 + length pre)
               (if pre = [] then Some c else Some (last pre)) (x # rest)"
         "\<forall>m \<in> set ms1. m_start m < pos + 1 + length pre"
         "skip' = m_end (last mm) \<or> (\<exists>m \<in> set ms1. skip' = m_end m)" by blast
    have ne: "mm \<noteq> []" using Cons by simp
    have "finditer_from p len skip pos prev ((c # pre) @ x # rest) =
         (mm @ ms1) @ finditer_from p len skip' (pos + length (c # pre))
               (if c # pre = [] then prev else Some (last (c # pre))) (x # rest)"
      using r(1) Cons unfolding mm_def by (simp add: add.assoc)
    moreover have "\<forall>m \<in> set (mm @ ms1). m_start m < pos + length (c # pre)"
      using r(2) st by auto
    moreover have "skip' = skip \<or> (\<exists>m \<in> set (mm @ ms1). skip' = m_end m)"
      using r(3) last_in_set[OF ne] by auto
    ultimately show ?thesis by blast
  qed
qed

lemma finditer_mention:
  assumes d: "is_decimal d1" "is_decimal d2" "ds = [d1] \<or> ds = [d1, d2]"
      and w: "ws \<noteq> []" "\<forall>x \<in> set ws. is_space x"
      and mon: "2 \<le> length mon" "\<forall>c \<in> set mon. is_ru_letter c"
      and post: "post = [] \<or> \<not> is_word (hd post)"
      and H: "\<forall>m \<in> set (finditer LISTED_DAYS_RE (pre @ ds @ ws @ mon @ post)).
                m_start m < length pre \<longrightarrow> m_end m \<le> length pre"
  shows "\<exists>ms1 ms2. finditer LISTED_DAYS_RE (pre @ ds @ ws @ mon @ post) =
     ms1 @ \<lparr>m_start = length pre, m_end = length pre + length ds + length ws + length mon,
      groups = [(''month'', length pre + length ds + length ws, length pre + length ds + length ws + length mon),
                (''days'', length pre, length pre + length ds)]\<rparr> # ms2"
proof -
  define t where "t = pre @ ds @ ws @ mon @ post"
  define len where "len = length t"
  define pv where "pv = (if pre = [] then None else Some (last pre))"
  define m0 where "m0 = \<lparr>m_start = length pre, m_end = length pre + length ds + length ws + length mon,
      groups = [(''month'', length pre + length ds + length ws, length pre + length ds + length ws + length mon),
                (''days'', length pre, length pre + length ds)]\<rparr>"
  from d(3) obtain dr where D: "ds = d1 # dr" by auto
  define core where "core = dr @ ws @ mon @ post"
  have tt: "t = pre @ d1 # core" by (simp add: t_def D core_def)
  have len: "length ws + length mon \<le> len" by (simp add: len_def t_def)
  have mh: "match_here LISTED_DAYS_RE len False (MState (length pre) pv (ds @ ws @ mon @ post) []) = Some m0"
    unfolding m0_def by (rule listed_match_here_gen[OF d w mon post len])
  from finditer_prefix[of LISTED_DAYS_RE len 0 0 None pre d1 core] obtain ms1 skip' where
    r: "finditer_from LISTED_DAYS_RE len 0 0 None (pre @ d1 # core) =
          ms1 @ finditer_from LISTED_DAYS_RE len skip' (length pre) pv (d1 # core)"
       "\<forall>m \<in> set ms1. m_start m < length pre"
       "skip' = 0 \<or> (\<exists>m \<in> set ms1. skip' = m_end m)"
    unfolding pv_def by auto
  have f: "finditer LISTED_DAYS_RE t = ms1 @ finditer_from LISTED_DAYS_RE len skip' (length pre) pv (d1 # core)"
    unfolding finditer_def len_def[symmetric] using r(1) unfolding tt by simp
  have sk: "skip' \<le> length pre"
  proof (cases "skip' = 0")
    case True
    then show ?thesis by simp
  next
    case False
    with r(3) obtain m where m: "m \<in> set ms1" "skip' = m_end m" by blast
    from m(1) f have "m \<in> set (finditer LISTED_DAYS_RE t)" by simp
    moreover from m(1) r(2) have "m_start m < length pre" by blast
    ultimately have "m_end m \<le> length pre" using H unfolding t_def by blast
    with m(2) show ?thesis by simp
  qed
  have e: "length pre < m_end m0" using D by (simp add: m0_def)
  have mm: "matches_here LISTED_DAYS_RE len skip' (MState (length pre) pv (d1 # core) []) = [m0]"
    using mh e sk by (simp add: matches_here_def D core_def)
  have c: "finditer_from LISTED_DAYS_RE len skip' (length pre) pv (d1 # core)
      = m0 # finditer_from LISTED_DAYS_RE len (m_end m0) (length pre + 1) (Some d1) core"
    by (simp add: mm)
  from f c have "finditer LISTED_DAYS_RE t
      = ms1 @ m0 # finditer_from LISTED_DAYS_RE len (m_end m0) (length pre + 1) (Some d1) core"
    by simp
  then show ?thesis unfolding m0_def t_def by blast
qed

lemma listed_no_digit:
  assumes "rest = [] \<or> \<not> is_decimal (hd rest)"
  shows "match_here LISTED_DAYS_RE len adv (MState pos prev rest []) = None"
proof -
  have nd: "take_char (in_classes True False [CDigit]) kk (MState pos prev rest g) = None" for kk g
    using assms by (cases rest) (auto simp: take_char_Cons take_char_Nil in_classes_def)
  show ?thesis
    unfolding match_here_def listed_tree
    by (cases len) (simp_all add: LISTED_DAYS_RE_def DAYS_PART_def seqs_def nd)
qed

lemma finditer_from_start:
  "m \<in> set (finditer_from p len skip pos prev s) \<Longrightarrow> pos \<le> m_start m"
proof (induction s arbitrary: skip pos prev)
  case Nil
  then show ?case using matches_here_start[of m p len skip "MState pos prev [] []"] by simp
next
  case (Cons c cs)
  define mm where "mm = matches_here p len skip (MState pos prev (c # cs) [])"
  have st: "\<forall>m \<in> set mm. m_start m = pos"
    unfolding mm_def using matches_here_start[of _ p len skip "MState pos prev (c # cs) []"] by simp
  show ?case
  proof (cases mm)
    case Nil
    with Cons.prems have "m \<in> set (finditer_from p len skip (pos + 1) (Some c) cs)"
      unfolding mm_def by simp
    from Cons.IH[OF this] show ?thesis by simp
  next
    case (Cons x xs)
    with Cons.prems have "m \<in> set mm \<or> m \<in> set (finditer_from p len (m_end (last mm)) (pos + 1) (Some c) cs)"
      unfolding mm_def by auto
    then show ?thesis
    proof
      assume "m \<in> set mm"
      with st show ?thesis by simp
    next
      assume "m \<in> set (finditer_from p len (m_end (last mm)) (pos + 1) (Some c) cs)"
      from Cons.IH[OF this] show ?thesis by simp
    qed
  qed
qed

lemma finditer_skip_prefix:
  assumes "\<forall>c \<in> set pre. \<not> is_decimal c"
  shows "finditer_from LISTED_DAYS_RE len skip pos prev (pre @ x # rest) =
         finditer_from LISTED_DAYS_RE len skip (pos + length pre)
           (if pre = [] then prev else Some (last pre)) (x # rest)"
  using assms
proof (induction pre arbitrary: pos prev)
  case Nil
  then show ?case by simp
next
  case (Cons c pre)
  have "match_here LISTED_DAYS_RE len False (MState pos prev (c # pre @ x # rest) []) = None"
    using Cons.prems by (intro listed_no_digit) simp
  then have "matches_here LISTED_DAYS_RE len skip (MState pos prev (c # pre @ x # rest) []) = []"
    by (simp add: matches_here_def)
  with Cons.IH[of "pos + 1" "Some c"] Cons.prems show ?case by simp
qed

lemma finditer_no_digit:
  assumes "\<forall>c \<in> set s. \<not> is_decimal c"
  shows "finditer_from LISTED_DAYS_RE len skip pos prev s = []"
  using assms
proof (induction s arbitrary: pos prev)
  case Nil
  have "match_here LISTED_DAYS_RE len False (MState pos prev [] []) = None"
    by (intro listed_no_digit) simp
  then show ?case by (simp add: matches_here_def)
next
  case (Cons c s)
  have "match_here LISTED_DAYS_RE len False (MState pos prev (c # s) []) = None"
    using Cons.prems by (intro listed_no_digit) simp
  then have "matches_here LISTED_DAYS_RE len skip (MState pos prev (c # s) []) = []"
    by (simp add: matches_here_def)
  with Cons.IH[of "pos + 1" "Some c"] Cons.prems show ?case by simp
qed

lemma no_digit_no_start:
  assumes pre: "\<forall>c \<in> set pre. \<not> is_decimal c"
      and m: "m \<in> set (finditer LISTED_DAYS_RE (pre @ rest))"
  shows "length pre \<le> m_start m"
proof (cases rest)
  case Nil
  with m finditer_no_digit[OF pre, of "length pre" 0 0 None] show ?thesis
    by (simp add: finditer_def)
next
  case (Cons x xs)
  from m have "m \<in> set (finditer_from LISTED_DAYS_RE (length (pre @ rest)) 0 (0 + length pre)
           (if pre = [] then None else Some (last pre)) (x # xs))"
    unfolding finditer_def Cons
    using finditer_skip_prefix[OF pre, of "length (pre @ x # xs)" 0 0 None x xs] by simp
  from finditer_from_start[OF this] show ?thesis by simp
qed

text \<open>The body of the list loop on a match whose \<open>days\<close> group is one number.\<close>

lemma strip_chars_id:
  assumes "\<forall>c \<in> set s. \<not> p c"
  shows "strip_chars p s = s"
proof (cases "s = []")
  case True
  then show ?thesis by (simp add: strip_chars_def)
next
  case False
  have 1: "dropWhile p s = s" using assms False by (cases s) auto
  have "\<not> p (hd (rev s))" using assms False by (simp add: hd_rev)
  then have 2: "dropWhile p (rev s) = rev s" using False by (cases "rev s") auto
  show ?thesis unfolding strip_chars_def 1 2 by simp
qed

lemma str_replace_id:
  assumes "c0 \<notin> set s"
  shows "str_replace (c0 # old) new s = s"
  using assms by (induction s) auto

lemma str_split_id:
  assumes "sep \<notin> set s"
  shows "str_split sep s = [s]"
  using assms by (induction s) auto

lemma digits_parse:
  assumes ne: "ds \<noteq> []" and dg: "\<forall>c \<in> set ds. is_decimal c"
  shows "re_search DIGIT_RE ds \<noteq> None" "parse_days ds = Inr [digits_value ds]"
proof -
  from ne obtain d1 dr where D: "ds = d1 # dr" by (cases ds) auto
  have c: "in_classes False False [CDigit] d1" using dg D by (simp add: in_classes_def)
  show "re_search DIGIT_RE ds \<noteq> None"
    by (simp add: re_search_def D match_here_def DIGIT_RE_def take_char_Cons c accept_def)
  have n: "\<forall>c \<in> set ds. \<not> is_space c" "32 \<notin> set ds" "44 \<notin> set ds"
    using dg by (auto simp: is_decimal_def is_space_def)
  have s: "str_strip ds = ds" unfolding str_strip_def by (rule strip_chars_id[OF n(1)])
  have i: "str_isdigit ds" using ne dg by (simp add: str_isdigit_def list_all_iff)
  show "parse_days ds = Inr [digits_value ds]"
    unfolding parse_days_def str_replace_id[OF n(2)] str_split_id[OF n(3)]
    by (simp add: s i py_int_def)
qed

lemma safe_date_valid:
  assumes "valid_ymd y mo dd"
  shows "safe_date y mo dd = Inr (Some (Date y mo dd))"
proof -
  have "dd \<le> 31" using assms by (auto simp: valid_ymd_def days_in_month_def split: if_splits)
  with assms have "c_int y \<and> c_int mo \<and> c_int dd" by (auto simp: valid_ymd_def c_int_def)
  with assms show ?thesis by (simp add: safe_date_def date_new_def)
qed

lemma list_body_bare_gen:
  assumes g: "group t m ''days'' = Some ds"
      and ne: "ds \<noteq> []" and dg: "\<forall>c \<in> set ds. is_decimal c"
      and nm: "normalize_month (group t m ''month'') = Inr (Some mo)"
      and v: "valid_ymd y mo (digits_value ds)"
  shows "list_body y t m a =
     Inr (insert (Date y mo (digits_value ds)) (fst a),
          if Date y mo (digits_value ds) \<in> fst a then snd a
          else snd a @ [list_note ds (fmt_group (group t m ''month''))])"
proof -
  note D = digits_parse[OF ne dg]
  have mo0: "mo \<noteq> 0" using normalize_month_range[OF nm] by simp
  have sd: "safe_date y mo (digits_value ds) = Inr (Some (Date y mo (digits_value ds)))"
    by (rule safe_date_valid[OF v])
  from D(1) obtain z where z: "re_search DIGIT_RE ds = Some z" by auto
  show ?thesis
    unfolding list_body_def nm g
    by (simp add: ne D(2) z mo0 sd insert_absorb)
qed

lemma month_token:
  assumes l: "\<forall>c \<in> set mon. is_ru_letter c"
      and k: "map_of MONTHS_RU (str_lower mon) = Some mo"
  shows "2 \<le> length mon" "normalize_month (Some mon) = Inr (Some mo)"
proof -
  from map_of_SomeD[OF k] have "(str_lower mon, mo) \<in> set MONTHS_RU" .
  then have "2 \<le> length (str_lower mon)" by (auto simp: MONTHS_RU_def)
  then show "2 \<le> length mon" by (simp add: str_lower_def)
  have "\<forall>c \<in> set (str_lower mon). \<not> (c \<in> set [32, 46, 44, 58, 59])"
    using l letter_lower(1) by (fastforce simp: str_lower_def)
  from strip_chars_id[OF this] k show "normalize_month (Some mon) = Inr (Some mo)"
    by (simp add: normalize_month_def)
qed

lemma mention_groups:
  "group (pre @ ds @ ws @ mon @ post)
     \<lparr>m_start = length pre, m_end = length pre + length ds + length ws + length mon,
      groups = [(''month'', length pre + length ds + length ws, length pre + length ds + length ws + length mon),
                (''days'', length pre, length pre + length ds)]\<rparr> ''days'' = Some ds"
  "group (pre @ ds @ ws @ mon @ post)
     \<lparr>m_start = length pre, m_end = length pre + length ds + length ws + length mon,
      groups = [(''month'', length pre + length ds + length ws, length pre + length ds + length ws + length mon),
                (''days'', length pre, length pre + length ds)]\<rparr> ''month'' = Some mon"
proof -
  have a: "slice (pre @ ds @ ws @ mon @ post) (length pre) (length pre + length ds) = ds"
    by (simp add: slice_def)
  have "drop (length pre + length ds + length ws) (pre @ ds @ ws @ mon @ post) = mon @ post"
    using drop_append[of "length (pre @ ds @ ws)" "pre @ ds @ ws" "mon @ post"] by simp
  then have b: "slice (pre @ ds @ ws @ mon @ post) (length pre + length ds + length ws)
      (length pre + length ds + length ws + length mon) = mon"
    by (simp add: slice_def)
  show "group (pre @ ds @ ws @ mon @ post)
     \<lparr>m_start = length pre, m_end = length pre + length ds + length ws + length mon,
      groups = [(''month'', length pre + length ds + length ws, length pre + length ds + length ws + length mon),
                (''days'', length pre, length pre + length ds)]\<rparr> ''days'' = Some ds"
    using a by (simp add: group_def)
  show "group (pre @ ds @ ws @ mon @ post)
     \<lparr>m_start = length pre, m_end = length pre + length ds + length ws + length mon,
      groups = [(''month'', length pre + length ds + length ws, length pre + length ds + length ws + length mon),
                (''days'', length pre, length pre + length ds)]\<rparr> ''month'' = Some mon"
    using b by (simp add: group_def)
qed

lemma list_stage_mention:
  assumes d: "is_decimal d1" "is_decimal d2" "ds = [d1] \<or> ds = [d1, d2]"
      and w: "ws \<noteq> []" "\<forall>x \<in> set ws. is_space x"
      and l: "\<forall>c \<in> set mon. is_ru_letter c"
      and k: "map_of MONTHS_RU (str_lower mon) = Some mo"
      and post: "post = [] \<or> \<not> is_word (hd post)"
      and H: "\<forall>m \<in> set (finditer LISTED_DAYS_RE (pre @ ds @ ws @ mon @ post)).
                m_start m < length pre \<longrightarrow> m_end m \<le> length pre"
      and v: "valid_ymd y mo (digits_value ds)"
  shows "\<exists>ms1 m ms2. finditer LISTED_DAYS_RE (pre @ ds @ ws @ mon @ post) = ms1 @ m # ms2
           \<and> m_start m = length pre
           \<and> m_end m = length pre + length ds + length ws + length mon
           \<and> group (pre @ ds @ ws @ mon @ post) m ''days'' = Some ds
           \<and> group (pre @ ds @ ws @ mon @ post) m ''month'' = Some mon
           \<and> (\<forall>a. list_body y (pre @ ds @ ws @ mon @ post) m a =
                   Inr (insert (Date y mo (digits_value ds)) (fst a),
                        if Date y mo (digits_value ds) \<in> fst a then snd a
                        else snd a @ [list_note ds mon]))
           \<and> (\<forall>a a'. list_stage y (pre @ ds @ ws @ mon @ post) a = Inr a'
                   \<longrightarrow> Date y mo (digits_value ds) \<in> fst a')"
proof -
  define t where "t = pre @ ds @ ws @ mon @ post"
  define m where "m = \<lparr>m_start = length pre, m_end = length pre + length ds + length ws + length mon,
      groups = [(''month'', length pre + length ds + length ws, length pre + length ds + length ws + length mon),
                (''days'', length pre, length pre + length ds)]\<rparr>"
  note M = month_token[OF l k]
  from finditer_mention[OF d w M(1) l post H] obtain ms1 ms2 where
    f: "finditer LISTED_DAYS_RE t = ms1 @ m # ms2" unfolding t_def m_def by blast
  have g: "group t m ''days'' = Some ds" "group t m ''month'' = Some mon"
    unfolding t_def m_def by (rule mention_groups)+
  have ne: "ds \<noteq> []" and dg: "\<forall>c \<in> set ds. is_decimal c" using d by auto
  have nm: "normalize_month (group t m ''month'') = Inr (Some mo)" using g(2) M(2) by simp
  have b: "list_body y t m a =
     Inr (insert (Date y mo (digits_value ds)) (fst a),
          if Date y mo (digits_value ds) \<in> fst a then snd a
          else snd a @ [list_note ds mon])" for a
    using list_body_bare_gen[OF g(1) ne dg nm v, of a] g(2) by (simp add: fmt_group_def)
  have s: "Date y mo (digits_value ds) \<in> fst a'" if "list_stage y t a = Inr a'" for a a'
  proof -
    from list_stage_member[OF f that] obtain b0 b' where
      r: "list_body y t m b0 = Inr b'" "fst b' \<subseteq> fst a'" by blast
    from r(1) b[of b0] have "Date y mo (digits_value ds) \<in> fst b'" by auto
    with r(2) show ?thesis by blast
  qed
  have st: "m_start m = length pre" "m_end m = length pre + length ds + length ws + length mon"
    by (simp_all add: m_def)
  from f st g b s show ?thesis unfolding t_def by blast
qed


section \<open>The claims about the extractor\<close>

text \<open>
  Claim C3. The claim: a bare single-date mention is added to the non-working set only
  when the window of 40 code points before and after the match contains a trigger
  substring, so that the text \<open>8 marta\<close> alone yields no date. The program does
  otherwise: the list pattern also matches the bare mention, and the list loop adds
  2025-03-08 although no trigger occurs in the text (the single-date loop, run on its
  own, adds nothing).
\<close>

theorem bare_date_added_without_trigger:
  "extract_nonworking_dates today text_single (Some 2025) =
     Inr \<lparr>pr_year = 2025, nonworking_dates = {Date 2025 3 8},
          pr_notes = [[1055, 1077, 1088, 1077, 1095, 1077, 1085, 1100, 58, 32, 56, 32, 1084, 1072, 1088, 1090, 1072]]\<rparr>
   \<and> \<not> in_window (str_lower text_single)
   \<and> single_stage 2025 text_single ({}, []) = Inr ({}, [])"
  using extract_single_example[of today] single_no_trigger single_stage_single_example
  by simp



text \<open>
  Claim C5. For a match of the list pattern that passes the guards and whose \<open>days\<close>
  group is covered text, and a year in the C int range, the body of the list loop returns: it adds exactly the dates of the listed
  days that the constructor accepts (a day it rejects is skipped without an exception,
  also when it comes before one it accepts), and it appends a note if and only if one of
  them was not yet in the set. The parsing of the days never raises. The list loop runs
  this body on every match of the pattern, in order, each on what the matches before it
  left, and what a match has added stays. On \<open>1, 2 i 7 yanvarya nerabochie\<close> with the
  year 2025 the result is 2025-01-01, 2025-01-02 and 2025-01-07 with one note; when the
  set already holds 2025-01-01 to 2025-01-08, the list loop adds no date and no note; on
  \<open>30 i 28 fevralya\<close> the result is 2025-02-28 with one note; on
  \<open>1 i 2 maya, 3 i 4 iyunya\<close> it is the four dates with two notes, one for each match.
\<close>

theorem list_body_adds_new_dates:
  "(\<forall>m a mo raw_days days.
      normalize_month (group text m ''month'') = Inr (Some mo) \<and>
      group text m ''days'' = Some raw_days \<and> raw_days \<noteq> [] \<and>
      (\<forall>c \<in> set raw_days. covered c) \<and>
      re_search DIGIT_RE raw_days \<noteq> None \<and> parse_days raw_days = Inr days \<and>
      c_int y \<and> (\<forall>d \<in> set days. c_int d)
      \<longrightarrow> list_body y text m a =
            Inr (fst a \<union> {Date y mo d | d. d \<in> set days \<and> valid_ymd y mo d},
                 if {Date y mo d | d. d \<in> set days \<and> valid_ymd y mo d} \<subseteq> fst a
                 then snd a
                 else snd a @ [list_note raw_days (fmt_group (group text m ''month''))]))
   \<and> (\<forall>raw_days. \<exists>days. parse_days raw_days = Inr days)
   \<and> (\<forall>ms1 m ms2 a.
      finditer LISTED_DAYS_RE text = ms1 @ m # ms2
      \<longrightarrow> list_stage y text a =
            (case run_loop (list_body y text) ms1 a of
               Inl e \<Rightarrow> Inl e
             | Inr b \<Rightarrow>
                 (case list_body y text m b of
                    Inl e \<Rightarrow> Inl e
                  | Inr b' \<Rightarrow> run_loop (list_body y text) ms2 b')))
   \<and> (\<forall>ms b a'. run_loop (list_body y text) ms b = Inr a' \<longrightarrow> fst b \<subseteq> fst a')
   \<and> (\<forall>m a a' mo raw_days days.
      list_body y text m a = Inr a' \<and>
      normalize_month (group text m ''month'') = Inr (Some mo) \<and>
      group text m ''days'' = Some raw_days \<and> raw_days \<noteq> [] \<and>
      (\<forall>c \<in> set raw_days. covered c) \<and>
      re_search DIGIT_RE raw_days \<noteq> None \<and> parse_days raw_days = Inr days
      \<longrightarrow> fst a' = fst a \<union> {Date y mo d | d. d \<in> set days \<and> valid_ymd y mo d}
          \<and> snd a' = (if fst a' \<noteq> fst a
                       then snd a @ [list_note raw_days (fmt_group (group text m ''month''))]
                       else snd a))
   \<and> extract_nonworking_dates today text_list (Some 2025) =
       Inr \<lparr>pr_year = 2025, nonworking_dates = {Date 2025 1 1, Date 2025 1 2, Date 2025 1 7},
            pr_notes = [[1055, 1077, 1088, 1077, 1095, 1077, 1085, 1100, 58, 32, 49, 44, 32, 50, 32, 1080, 32, 55, 32, 1103, 1085, 1074, 1072, 1088, 1103]]\<rparr>
   \<and> list_stage 2025 text_list ({Date 2025 1 1, Date 2025 1 2, Date 2025 1 3, Date 2025 1 4, Date 2025 1 5, Date 2025 1 6, Date 2025 1 7, Date 2025 1 8}, ns) = Inr ({Date 2025 1 1, Date 2025 1 2, Date 2025 1 3, Date 2025 1 4, Date 2025 1 5, Date 2025 1 6, Date 2025 1 7, Date 2025 1 8}, ns)
   \<and> extract_nonworking_dates today text_list_feb (Some 2025) =
       Inr \<lparr>pr_year = 2025, nonworking_dates = {Date 2025 2 28},
            pr_notes = [[1055, 1077, 1088, 1077, 1095, 1077, 1085, 1100, 58, 32, 51, 48, 32, 1080, 32, 50, 56, 32, 1092, 1077, 1074, 1088, 1072, 1083, 1103]]\<rparr>
   \<and> extract_nonworking_dates today text_two_lists (Some 2025) =
       Inr \<lparr>pr_year = 2025, nonworking_dates = {Date 2025 5 1, Date 2025 5 2, Date 2025 6 3, Date 2025 6 4},
            pr_notes = [[1055, 1077, 1088, 1077, 1095, 1077, 1085, 1100, 58, 32, 49, 32, 1080, 32, 50, 32, 1084, 1072, 1103], [1055, 1077, 1088, 1077, 1095, 1077, 1085, 1100, 58, 32, 51, 32, 1080, 32, 52, 32, 1080, 1102, 1085, 1103]]\<rparr>"
proof (intro conjI allI impI)
  fix m a mo raw_days days
  assume h: "normalize_month (group text m ''month'') = Inr (Some mo) \<and>
      group text m ''days'' = Some raw_days \<and> raw_days \<noteq> [] \<and>
      (\<forall>c \<in> set raw_days. covered c) \<and>
      re_search DIGIT_RE raw_days \<noteq> None \<and> parse_days raw_days = Inr days \<and>
      c_int y \<and> (\<forall>d \<in> set days. c_int d)"
  from list_body_total[of "text" m mo raw_days days y a] h
  show "list_body y text m a =
            Inr (fst a \<union> {Date y mo d | d. d \<in> set days \<and> valid_ymd y mo d},
                 if {Date y mo d | d. d \<in> set days \<and> valid_ymd y mo d} \<subseteq> fst a
                 then snd a
                 else snd a @ [list_note raw_days (fmt_group (group text m ''month''))])"
    by (simp add: dates_of_def)
next
  fix raw_days
  show "\<exists>days. parse_days raw_days = Inr days" by (rule parse_days_total)
next
  fix ms1 m ms2 a
  assume "finditer LISTED_DAYS_RE text = ms1 @ m # ms2"
  then show "list_stage y text a =
            (case run_loop (list_body y text) ms1 a of
               Inl e \<Rightarrow> Inl e
             | Inr b \<Rightarrow>
                 (case list_body y text m b of
                    Inl e \<Rightarrow> Inl e
                  | Inr b' \<Rightarrow> run_loop (list_body y text) ms2 b'))"
    by (simp only: list_stage_def run_loop_split)
next
  fix ms b a'
  assume "run_loop (list_body y text) ms b = Inr a'"
  from run_loop_adds[OF list_body_adds this] show "fst b \<subseteq> fst a'" by simp
next
  fix m a a' mo raw_days days
  assume a: "list_body y text m a = Inr a' \<and>
      normalize_month (group text m ''month'') = Inr (Some mo) \<and>
      group text m ''days'' = Some raw_days \<and> raw_days \<noteq> [] \<and>
      (\<forall>c \<in> set raw_days. covered c) \<and>
      re_search DIGIT_RE raw_days \<noteq> None \<and> parse_days raw_days = Inr days"
  from list_body_result[of y "text" m a a' mo raw_days days] a
  have r: "fst a' = fst a \<union> dates_of y mo days"
          "snd a' = (if fst a' \<noteq> fst a
                       then snd a @ [list_note raw_days (fmt_group (group text m ''month''))]
                       else snd a)" by blast+
  from r(1) show "fst a' = fst a \<union> {Date y mo d | d. d \<in> set days \<and> valid_ymd y mo d}"
    by (simp add: dates_of_def)
next
  fix m a a' mo raw_days days
  assume a: "list_body y text m a = Inr a' \<and>
      normalize_month (group text m ''month'') = Inr (Some mo) \<and>
      group text m ''days'' = Some raw_days \<and> raw_days \<noteq> [] \<and>
      (\<forall>c \<in> set raw_days. covered c) \<and>
      re_search DIGIT_RE raw_days \<noteq> None \<and> parse_days raw_days = Inr days"
  from list_body_result[of y "text" m a a' mo raw_days days] a
  show "snd a' = (if fst a' \<noteq> fst a
                       then snd a @ [list_note raw_days (fmt_group (group text m ''month''))]
                       else snd a)" by blast
next
  show "extract_nonworking_dates today text_list (Some 2025) =
       Inr \<lparr>pr_year = 2025, nonworking_dates = {Date 2025 1 1, Date 2025 1 2, Date 2025 1 7},
            pr_notes = [[1055, 1077, 1088, 1077, 1095, 1077, 1085, 1100, 58, 32, 49, 44, 32, 50, 32, 1080, 32, 55, 32, 1103, 1085, 1074, 1072, 1088, 1103]]\<rparr>"
    by (rule extract_list_example)
next
  show "list_stage 2025 text_list ({Date 2025 1 1, Date 2025 1 2, Date 2025 1 3, Date 2025 1 4, Date 2025 1 5, Date 2025 1 6, Date 2025 1 7, Date 2025 1 8}, ns) = Inr ({Date 2025 1 1, Date 2025 1 2, Date 2025 1 3, Date 2025 1 4, Date 2025 1 5, Date 2025 1 6, Date 2025 1 7, Date 2025 1 8}, ns)"
    by (rule list_stage_covered_example)
next
  show "extract_nonworking_dates today text_list_feb (Some 2025) =
       Inr \<lparr>pr_year = 2025, nonworking_dates = {Date 2025 2 28},
            pr_notes = [[1055, 1077, 1088, 1077, 1095, 1077, 1085, 1100, 58, 32, 51, 48, 32, 1080, 32, 50, 56, 32, 1092, 1077, 1074, 1088, 1072, 1083, 1103]]\<rparr>"
    by (rule extract_list_feb)
next
  show "extract_nonworking_dates today text_two_lists (Some 2025) =
       Inr \<lparr>pr_year = 2025, nonworking_dates = {Date 2025 5 1, Date 2025 5 2, Date 2025 6 3, Date 2025 6 4},
            pr_notes = [[1055, 1077, 1088, 1077, 1095, 1077, 1085, 1100, 58, 32, 49, 32, 1080, 32, 50, 32, 1084, 1072, 1103], [1055, 1077, 1088, 1077, 1095, 1077, 1085, 1100, 58, 32, 51, 32, 1080, 32, 52, 32, 1080, 1102, 1085, 1103]]\<rparr>"
    by (rule extract_two_lists)
qed

theorem list_body_adds_new_dates_witness:
  "(\<exists>a'. list_body 2025 text_list \<lparr>m_start = 0, m_end = 15, groups = [(''month'', 9, 15), (''days'', 0, 8)]\<rparr> ({Date 2025 1 1}, []) = Inr a'
     \<and> fst a' = {Date 2025 1 1} \<union> {Date 2025 1 d | d. d \<in> set [1, 2, 7] \<and> valid_ymd 2025 1 d}
     \<and> fst a' \<noteq> {Date 2025 1 1}
     \<and> snd a' = [list_note [49, 44, 32, 50, 32, 1080, 32, 55] (fmt_group (group text_list \<lparr>m_start = 0, m_end = 15, groups = [(''month'', 9, 15), (''days'', 0, 8)]\<rparr> ''month''))])
   \<and> c_int 2025 \<and> c_int 30 \<and> c_int 28
   \<and> finditer LISTED_DAYS_RE text_list_feb = [] @ \<lparr>m_start = 0, m_end = 15, groups = [(''month'', 8, 15), (''days'', 0, 7)]\<rparr> # []
   \<and> list_body 2025 text_list_feb \<lparr>m_start = 0, m_end = 15, groups = [(''month'', 8, 15), (''days'', 0, 7)]\<rparr> ({}, []) =
       Inr ({Date 2025 2 d | d. d \<in> set [30, 28] \<and> valid_ymd 2025 2 d}, [[1055, 1077, 1088, 1077, 1095, 1077, 1085, 1100, 58, 32, 51, 48, 32, 1080, 32, 50, 56, 32, 1092, 1077, 1074, 1088, 1072, 1083, 1103]])
   \<and> list_stage 2025 text_list_feb ({}, []) =
       Inr ({Date 2025 2 d | d. d \<in> set [30, 28] \<and> valid_ymd 2025 2 d}, [[1055, 1077, 1088, 1077, 1095, 1077, 1085, 1100, 58, 32, 51, 48, 32, 1080, 32, 50, 56, 32, 1092, 1077, 1074, 1088, 1072, 1083, 1103]])
   \<and> {Date 2025 2 d | d. d \<in> set [30, 28] \<and> valid_ymd 2025 2 d} = {Date 2025 2 28}"
proof -
  define m where "m = \<lparr>m_start = 0, m_end = 15, groups = [(''month'', 9, 15), (''days'', 0, 8)]\<rparr>"
  define a :: acc where "a = ({Date 2025 1 1}, [])"
  define a' :: acc where "a' = ({Date 2025 1 1, Date 2025 1 2, Date 2025 1 7}, [[1055, 1077, 1088, 1077, 1095, 1077, 1085, 1100, 58, 32, 49, 44, 32, 50, 32, 1080, 32, 55, 32, 1103, 1085, 1074, 1072, 1088, 1103]])"
  define raw :: ustr where "raw = [49, 44, 32, 50, 32, 1080, 32, 55]"
  note T = list_body_adds_new_dates[of text_list 2025 2026 "[]"]
  have b: "list_body 2025 text_list m a = Inr a'"
    unfolding m_def a_def a'_def by (rule list_body_example)
  have g: "normalize_month (group text_list m ''month'') = Inr (Some 1)"
          "group text_list m ''days'' = Some raw"
          "re_search DIGIT_RE raw \<noteq> None"
          "parse_days raw = Inr [1, 2, 7]"
    unfolding m_def raw_def by (rule list_match_groups)+
  have ne: "raw \<noteq> []" by (simp add: raw_def)
  have cr: "\<forall>c \<in> set raw. covered c" by (simp add: raw_def covered_def)
  from T
  have "\<forall>m a a' mo raw_days days.
      list_body 2025 text_list m a = Inr a' \<and>
      normalize_month (group text_list m ''month'') = Inr (Some mo) \<and>
      group text_list m ''days'' = Some raw_days \<and> raw_days \<noteq> [] \<and>
      (\<forall>c \<in> set raw_days. covered c) \<and>
      re_search DIGIT_RE raw_days \<noteq> None \<and> parse_days raw_days = Inr days
      \<longrightarrow> fst a' = fst a \<union> {Date 2025 mo d | d. d \<in> set days \<and> valid_ymd 2025 mo d}
          \<and> snd a' = (if fst a' \<noteq> fst a
                       then snd a @ [list_note raw_days (fmt_group (group text_list m ''month''))]
                       else snd a)"
    by (rule conjunct1[OF conjunct2[OF conjunct2[OF conjunct2[OF conjunct2]]]])
  from this[rule_format, of m a a' 1 raw "[1, 2, 7]"] b g ne cr
  have r: "fst a' = fst a \<union> {Date 2025 1 d | d. d \<in> set [1, 2, 7] \<and> valid_ymd 2025 1 d}"
          "snd a' = (if fst a' \<noteq> fst a
                     then snd a @ [list_note raw (fmt_group (group text_list m ''month''))]
                     else snd a)"
    by blast+
  have n: "fst a' \<noteq> fst a" unfolding a_def a'_def by auto
  from r(2) n have s: "snd a' = [list_note raw (fmt_group (group text_list m ''month''))]"
    by (simp add: a_def)
  from b r(1) n s have w1: "\<exists>a'. list_body 2025 text_list m ({Date 2025 1 1}, []) = Inr a'
     \<and> fst a' = {Date 2025 1 1} \<union> {Date 2025 1 d | d. d \<in> set [1, 2, 7] \<and> valid_ymd 2025 1 d}
     \<and> fst a' \<noteq> {Date 2025 1 1}
     \<and> snd a' = [list_note raw (fmt_group (group text_list m ''month''))]"
    unfolding a_def by auto
  define mf where "mf = \<lparr>m_start = 0, m_end = 15, groups = [(''month'', 8, 15), (''days'', 0, 7)]\<rparr>"
  define rawf :: ustr where "rawf = [51, 48, 32, 1080, 32, 50, 56]"
  define D where "D = {Date 2025 2 d | d. d \<in> set [30, 28] \<and> valid_ymd 2025 2 d}"
  define N :: "ustr list" where "N = [[1055, 1077, 1088, 1077, 1095, 1077, 1085, 1100, 58, 32, 51, 48, 32, 1080, 32, 50, 56, 32, 1092, 1077, 1074, 1088, 1072, 1083, 1103]]"
  note U = list_body_adds_new_dates[of text_list_feb 2025 2026 "[]"]
  have c: "c_int 2025" "\<forall>d \<in> set [30, 28]. c_int d" by (simp_all add: c_int_def)
  have gf: "normalize_month (group text_list_feb mf ''month'') = Inr (Some 2)"
          "group text_list_feb mf ''days'' = Some rawf"
          "re_search DIGIT_RE rawf \<noteq> None"
          "parse_days rawf = Inr [30, 28]"
    unfolding mf_def rawf_def by (rule list_feb_groups)+
  have nf: "rawf \<noteq> []" by (simp add: rawf_def)
  have cf: "\<forall>c \<in> set rawf. covered c" by (simp add: rawf_def covered_def)
  have f: "finditer LISTED_DAYS_RE text_list_feb = [] @ mf # []"
    unfolding mf_def by (simp add: list_feb_groups(5))
  have fg: "fmt_group (group text_list_feb mf ''month'') = [1092, 1077, 1074, 1088, 1072, 1083, 1103]"
    unfolding mf_def by (simp add: fmt_group_def group_def slice_def text_defs2)
  have dn: "D = {Date 2025 2 28}"
    unfolding D_def by (auto simp: valid_ymd_def days_in_month_def is_leap_def)
  from U have "\<forall>m a mo raw_days days.
      normalize_month (group text_list_feb m ''month'') = Inr (Some mo) \<and>
      group text_list_feb m ''days'' = Some raw_days \<and> raw_days \<noteq> [] \<and>
      (\<forall>c \<in> set raw_days. covered c) \<and>
      re_search DIGIT_RE raw_days \<noteq> None \<and> parse_days raw_days = Inr days \<and>
      c_int 2025 \<and> (\<forall>d \<in> set days. c_int d)
      \<longrightarrow> list_body 2025 text_list_feb m a =
            Inr (fst a \<union> {Date 2025 mo d | d. d \<in> set days \<and> valid_ymd 2025 mo d},
                 if {Date 2025 mo d | d. d \<in> set days \<and> valid_ymd 2025 mo d} \<subseteq> fst a
                 then snd a
                 else snd a @ [list_note raw_days (fmt_group (group text_list_feb m ''month''))])"
    by (rule conjunct1)
  note I = this[rule_format, of mf 2 rawf "[30, 28]" "({}, [])"]
  have hyp: "normalize_month (group text_list_feb mf ''month'') = Inr (Some 2) \<and>
      group text_list_feb mf ''days'' = Some rawf \<and> rawf \<noteq> [] \<and>
      (\<forall>c \<in> set rawf. covered c) \<and>
      re_search DIGIT_RE rawf \<noteq> None \<and> parse_days rawf = Inr [30, 28] \<and>
      c_int 2025 \<and> (\<forall>d \<in> set [30, 28]. c_int d)"
    by (intro conjI gf nf c cf)
  have bf: "list_body 2025 text_list_feb mf ({}, []) = Inr (D, N)"
    using I[OF hyp] unfolding D_def[symmetric] fg
    by (simp add: dn N_def list_note_def rawf_def)
  from U have "\<forall>ms1 m ms2 a.
      finditer LISTED_DAYS_RE text_list_feb = ms1 @ m # ms2
      \<longrightarrow> list_stage 2025 text_list_feb a =
            (case run_loop (list_body 2025 text_list_feb) ms1 a of
               Inl e \<Rightarrow> Inl e
             | Inr b \<Rightarrow>
                 (case list_body 2025 text_list_feb m b of
                    Inl e \<Rightarrow> Inl e
                  | Inr b' \<Rightarrow> run_loop (list_body 2025 text_list_feb) ms2 b'))"
    by (rule conjunct1[OF conjunct2[OF conjunct2]])
  from this[rule_format, OF f, of "({}, [])"] bf
  have sf: "list_stage 2025 text_list_feb ({}, []) = Inr (D, N)" by simp
  have c3: "c_int 2025" "c_int 30" "c_int 28" by (simp_all add: c_int_def)
  from w1 c3 f bf sf dn show ?thesis
    unfolding m_def raw_def mf_def D_def N_def by blast
qed






text \<open>
  Claim C8. The claim: \<open>extract_nonworking_dates\<close> never raises, for every text and
  every integer year hint. The program raises for a hint outside of the range of a C
  \<open>int\<close>: the date constructor then raises OverflowError, which \<open>_safe_date\<close> does not
  catch. Here the text is \<open>8 marta\<close> and the hint is 2147483648.
\<close>

theorem extract_raises_overflow:
  "extract_nonworking_dates today text_single (Some 2147483648) = Inl OverflowError"
  by (rule extract_overflow_example)

text \<open>
  Claim C9. The list pattern also matches a bare day-and-month mention, and the list
  loop adds its date with no test of the context. For every match of the list pattern
  whose \<open>days\<close> group is a number (digits only, no comma and no conjunction) and whose
  month is recognised, if the constructor accepts the date, the body of the list loop
  adds it, whatever surrounds the match, and appends a note when the date is new; the
  list loop runs the body on every such match, wherever it stands among the matches, and
  the date is in the set the loop returns. Such matches exist: in a covered text
  \<open>pre @ ds @ ws @ mon @ post\<close>, where \<open>ds\<close> is one or two decimal digits, \<open>ws\<close> a
  non-empty run of white space, \<open>mon\<close> a month name in capital or small letters,
  \<open>post\<close> empty or starting with a code point that is not a word character, and where
  no earlier match reaches beyond \<open>pre\<close>, the mention is a match of the pattern with
  \<open>days\<close> = \<open>ds\<close> and \<open>month\<close> = \<open>mon\<close>. No match starts in a prefix without
  digits, so the condition on earlier matches holds for such a prefix. On \<open>8 Marta\<close>
  with the year 2025 the extractor returns 2025-03-08 with the note of the list loop, and
  on \<open>1 maya i 9 Maya.\<close> the list loop adds both dates.
\<close>

theorem list_pattern_adds_bare_date:
  "(\<forall>m a ds mo.
      group text m ''days'' = Some ds \<and> ds \<noteq> [] \<and> (\<forall>c \<in> set ds. is_decimal c) \<and>
      normalize_month (group text m ''month'') = Inr (Some mo) \<and>
      valid_ymd y mo (digits_value ds)
      \<longrightarrow> list_body y text m a =
            Inr (insert (Date y mo (digits_value ds)) (fst a),
                 if Date y mo (digits_value ds) \<in> fst a then snd a
                 else snd a @ [list_note ds (fmt_group (group text m ''month''))]))
   \<and> (\<forall>ms1 m ms2 a a' ds mo.
      finditer LISTED_DAYS_RE text = ms1 @ m # ms2 \<and>
      group text m ''days'' = Some ds \<and> ds \<noteq> [] \<and> (\<forall>c \<in> set ds. is_decimal c) \<and>
      normalize_month (group text m ''month'') = Inr (Some mo) \<and>
      valid_ymd y mo (digits_value ds) \<and>
      list_stage y text a = Inr a'
      \<longrightarrow> (\<exists>b. run_loop (list_body y text) ms1 a = Inr b \<and>
               run_loop (list_body y text) ms2
                 (insert (Date y mo (digits_value ds)) (fst b),
                  if Date y mo (digits_value ds) \<in> fst b then snd b
                  else snd b @ [list_note ds (fmt_group (group text m ''month''))]) = Inr a')
          \<and> Date y mo (digits_value ds) \<in> fst a')
   \<and> (\<forall>d1 d2 ds ws mon mo pre post.
      is_decimal d1 \<and> is_decimal d2 \<and> (ds = [d1] \<or> ds = [d1, d2]) \<and>
      ws \<noteq> [] \<and> (\<forall>x \<in> set ws. is_space x) \<and>
      (\<forall>c \<in> set mon. is_ru_letter c) \<and> map_of MONTHS_RU (str_lower mon) = Some mo \<and>
      (\<forall>c \<in> set pre. covered c) \<and>
      (post = [] \<or> (covered (hd post) \<and> \<not> is_word (hd post))) \<and>
      (\<forall>m \<in> set (finditer LISTED_DAYS_RE (pre @ ds @ ws @ mon @ post)).
          m_start m < length pre \<longrightarrow> m_end m \<le> length pre) \<and>
      valid_ymd y mo (digits_value ds)
      \<longrightarrow> (\<exists>ms1 m ms2. finditer LISTED_DAYS_RE (pre @ ds @ ws @ mon @ post) = ms1 @ m # ms2
           \<and> m_start m = length pre
           \<and> m_end m = length pre + length ds + length ws + length mon
           \<and> group (pre @ ds @ ws @ mon @ post) m ''days'' = Some ds
           \<and> group (pre @ ds @ ws @ mon @ post) m ''month'' = Some mon
           \<and> (\<forall>a. list_body y (pre @ ds @ ws @ mon @ post) m a =
                   Inr (insert (Date y mo (digits_value ds)) (fst a),
                        if Date y mo (digits_value ds) \<in> fst a then snd a
                        else snd a @ [list_note ds mon]))
           \<and> (\<forall>a a'. list_stage y (pre @ ds @ ws @ mon @ post) a = Inr a'
                   \<longrightarrow> Date y mo (digits_value ds) \<in> fst a')))
   \<and> (\<forall>pre rest m.
      (\<forall>c \<in> set pre. covered c \<and> \<not> is_decimal c) \<and>
      m \<in> set (finditer LISTED_DAYS_RE (pre @ rest))
      \<longrightarrow> length pre \<le> m_start m)
   \<and> extract_nonworking_dates today text_upper (Some 2025) =
       Inr \<lparr>pr_year = 2025, nonworking_dates = {Date 2025 3 8},
            pr_notes = [[1055, 1077, 1088, 1077, 1095, 1077, 1085, 1100, 58, 32, 56, 32, 1052, 1072, 1088, 1090, 1072]]\<rparr>
   \<and> list_stage 2025 text_two_bare ({}, []) =
       Inr ({Date 2025 5 1, Date 2025 5 9},
            [[1055, 1077, 1088, 1077, 1095, 1077, 1085, 1100, 58, 32, 49, 32, 1084, 1072, 1103], [1055, 1077, 1088, 1077, 1095, 1077, 1085, 1100, 58, 32, 57, 32, 1052, 1072, 1103]])"
proof (intro conjI allI impI)
  fix m a ds mo
  assume h: "group text m ''days'' = Some ds \<and> ds \<noteq> [] \<and> (\<forall>c \<in> set ds. is_decimal c) \<and>
      normalize_month (group text m ''month'') = Inr (Some mo) \<and>
      valid_ymd y mo (digits_value ds)"
  from list_body_bare_gen[of "text" m ds mo y a] h
  show "list_body y text m a =
            Inr (insert (Date y mo (digits_value ds)) (fst a),
                 if Date y mo (digits_value ds) \<in> fst a then snd a
                 else snd a @ [list_note ds (fmt_group (group text m ''month''))])"
    by blast
next
  fix ms1 m ms2 a a' ds mo
  assume h: "finditer LISTED_DAYS_RE text = ms1 @ m # ms2 \<and>
      group text m ''days'' = Some ds \<and> ds \<noteq> [] \<and> (\<forall>c \<in> set ds. is_decimal c) \<and>
      normalize_month (group text m ''month'') = Inr (Some mo) \<and>
      valid_ymd y mo (digits_value ds) \<and>
      list_stage y text a = Inr a'"
  from h have f: "finditer LISTED_DAYS_RE text = ms1 @ m # ms2"
    and s: "list_stage y text a = Inr a'" by blast+
  from list_stage_member[OF f s] obtain b b' where
    r: "run_loop (list_body y text) ms1 a = Inr b" "list_body y text m b = Inr b'"
       "run_loop (list_body y text) ms2 b' = Inr a'" "fst b' \<subseteq> fst a'" by blast
  from list_body_bare_gen[of "text" m ds mo y b] h
  have e: "list_body y text m b =
            Inr (insert (Date y mo (digits_value ds)) (fst b),
                 if Date y mo (digits_value ds) \<in> fst b then snd b
                 else snd b @ [list_note ds (fmt_group (group text m ''month''))])"
    by blast
  with r(2) have b': "b' = (insert (Date y mo (digits_value ds)) (fst b),
                 if Date y mo (digits_value ds) \<in> fst b then snd b
                 else snd b @ [list_note ds (fmt_group (group text m ''month''))])"
    by simp
  from r(1) r(3) b' show "(\<exists>b. run_loop (list_body y text) ms1 a = Inr b \<and>
               run_loop (list_body y text) ms2
                 (insert (Date y mo (digits_value ds)) (fst b),
                  if Date y mo (digits_value ds) \<in> fst b then snd b
                  else snd b @ [list_note ds (fmt_group (group text m ''month''))]) = Inr a')"
    by blast
  from b' r(4) show "Date y mo (digits_value ds) \<in> fst a'" by auto
next
  fix d1 d2 ds ws mon mo pre post
  assume h: "is_decimal d1 \<and> is_decimal d2 \<and> (ds = [d1] \<or> ds = [d1, d2]) \<and>
      ws \<noteq> [] \<and> (\<forall>x \<in> set ws. is_space x) \<and>
      (\<forall>c \<in> set mon. is_ru_letter c) \<and> map_of MONTHS_RU (str_lower mon) = Some mo \<and>
      (\<forall>c \<in> set pre. covered c) \<and>
      (post = [] \<or> (covered (hd post) \<and> \<not> is_word (hd post))) \<and>
      (\<forall>m \<in> set (finditer LISTED_DAYS_RE (pre @ ds @ ws @ mon @ post)).
          m_start m < length pre \<longrightarrow> m_end m \<le> length pre) \<and>
      valid_ymd y mo (digits_value ds)"
  from h have p: "post = [] \<or> \<not> is_word (hd post)" by blast
  from list_stage_mention[of d1 d2 ds ws mon mo post pre y] h p
  show "(\<exists>ms1 m ms2. finditer LISTED_DAYS_RE (pre @ ds @ ws @ mon @ post) = ms1 @ m # ms2
           \<and> m_start m = length pre
           \<and> m_end m = length pre + length ds + length ws + length mon
           \<and> group (pre @ ds @ ws @ mon @ post) m ''days'' = Some ds
           \<and> group (pre @ ds @ ws @ mon @ post) m ''month'' = Some mon
           \<and> (\<forall>a. list_body y (pre @ ds @ ws @ mon @ post) m a =
                   Inr (insert (Date y mo (digits_value ds)) (fst a),
                        if Date y mo (digits_value ds) \<in> fst a then snd a
                        else snd a @ [list_note ds mon]))
           \<and> (\<forall>a a'. list_stage y (pre @ ds @ ws @ mon @ post) a = Inr a'
                   \<longrightarrow> Date y mo (digits_value ds) \<in> fst a'))"
    by blast
next
  fix pre rest m
  assume h: "(\<forall>c \<in> set pre. covered c \<and> \<not> is_decimal c) \<and>
      m \<in> set (finditer LISTED_DAYS_RE (pre @ rest))"
  from h have "\<forall>c \<in> set pre. \<not> is_decimal c"
    and "m \<in> set (finditer LISTED_DAYS_RE (pre @ rest))" by blast+
  from no_digit_no_start[OF this] show "length pre \<le> m_start m" .
next
  show "extract_nonworking_dates today text_upper (Some 2025) =
       Inr \<lparr>pr_year = 2025, nonworking_dates = {Date 2025 3 8},
            pr_notes = [[1055, 1077, 1088, 1077, 1095, 1077, 1085, 1100, 58, 32, 56, 32, 1052, 1072, 1088, 1090, 1072]]\<rparr>"
    by (rule extract_upper)
next
  show "list_stage 2025 text_two_bare ({}, []) =
       Inr ({Date 2025 5 1, Date 2025 5 9},
            [[1055, 1077, 1088, 1077, 1095, 1077, 1085, 1100, 58, 32, 49, 32, 1084, 1072, 1103], [1055, 1077, 1088, 1077, 1095, 1077, 1085, 1100, 58, 32, 57, 32, 1052, 1072, 1103]])"
    by (rule list_stage_two_bare)
qed

theorem list_pattern_adds_bare_date_witness:
  "(\<exists>a'. list_stage 2025 text_single ({}, []) = Inr a'
     \<and> Date 2025 3 8 \<in> fst a'
     \<and> \<not> in_window (str_lower text_single))
   \<and> finditer LISTED_DAYS_RE text_two_bare = [\<lparr>m_start = 0, m_end = 5, groups = [(''month'', 2, 5), (''days'', 0, 1)]\<rparr>] @ \<lparr>m_start = 8, m_end = 13, groups = [(''month'', 10, 13), (''days'', 8, 9)]\<rparr> # []
   \<and> list_body 2025 text_two_bare \<lparr>m_start = 8, m_end = 13, groups = [(''month'', 10, 13), (''days'', 8, 9)]\<rparr> ({Date 2025 5 1}, [[1055, 1077, 1088, 1077, 1095, 1077, 1085, 1100, 58, 32, 49, 32, 1084, 1072, 1103]]) =
       Inr ({Date 2025 5 9, Date 2025 5 1}, [[1055, 1077, 1088, 1077, 1095, 1077, 1085, 1100, 58, 32, 49, 32, 1084, 1072, 1103], [1055, 1077, 1088, 1077, 1095, 1077, 1085, 1100, 58, 32, 57, 32, 1052, 1072, 1103]])
   \<and> (\<exists>b. run_loop (list_body 2025 text_two_bare) [\<lparr>m_start = 0, m_end = 5, groups = [(''month'', 2, 5), (''days'', 0, 1)]\<rparr>] ({}, []) = Inr b \<and>
            run_loop (list_body 2025 text_two_bare) []
              (insert (Date 2025 5 9) (fst b),
               if Date 2025 5 9 \<in> fst b then snd b else snd b @ [[1055, 1077, 1088, 1077, 1095, 1077, 1085, 1100, 58, 32, 57, 32, 1052, 1072, 1103]]) =
            Inr ({Date 2025 5 1, Date 2025 5 9}, [[1055, 1077, 1088, 1077, 1095, 1077, 1085, 1100, 58, 32, 49, 32, 1084, 1072, 1103], [1055, 1077, 1088, 1077, 1095, 1077, 1085, 1100, 58, 32, 57, 32, 1052, 1072, 1103]]))
   \<and> (\<exists>ms1 m ms2. finditer LISTED_DAYS_RE text_two_bare = ms1 @ m # ms2
         \<and> m_start m = 8 \<and> m_end m = 13
         \<and> group text_two_bare m ''days'' = Some [57]
         \<and> group text_two_bare m ''month'' = Some [1052, 1072, 1103]
         \<and> list_body 2025 text_two_bare m ({}, []) = Inr ({Date 2025 5 9}, [[1055, 1077, 1088, 1077, 1095, 1077, 1085, 1100, 58, 32, 57, 32, 1052, 1072, 1103]]))
   \<and> \<lparr>m_start = 20, m_end = 28, groups = [(''month'', 22, 28), (''days'', 20, 21)]\<rparr> \<in> set (finditer LISTED_DAYS_RE text_transfer)
   \<and> length ([1087, 1077, 1088, 1077, 1085, 1086, 1089, 32, 1074, 1099, 1093, 1086, 1076, 1085, 1086, 1075, 1086, 32, 1089, 32] :: ustr) \<le> m_start \<lparr>m_start = 20, m_end = 28, groups = [(''month'', 22, 28), (''days'', 20, 21)]\<rparr>"
proof -
  note T = list_pattern_adds_bare_date[of text_single 2025 2026]
  note U = list_pattern_adds_bare_date[of text_two_bare 2025 2026]
  define mon3 :: ustr where "mon3 = [1084, 1072, 1088, 1090, 1072]"
  define pre :: ustr where "pre = [49, 32, 1084, 1072, 1103, 32, 1080, 32]"
  define mon :: ustr where "mon = [1052, 1072, 1103]"
  define M1 where "M1 = \<lparr>m_start = 0, m_end = 5, groups = [(''month'', 2, 5), (''days'', 0, 1)]\<rparr>"
  define M2 where "M2 = \<lparr>m_start = 8, m_end = 13, groups = [(''month'', 10, 13), (''days'', 8, 9)]\<rparr>"
  define N1 :: ustr where "N1 = [1055, 1077, 1088, 1077, 1095, 1077, 1085, 1100, 58, 32, 49, 32, 1084, 1072, 1103]"
  define N9 :: ustr where "N9 = [1055, 1077, 1088, 1077, 1095, 1077, 1085, 1100, 58, 32, 57, 32, 1052, 1072, 1103]"
  have dv: "digits_value [56] = 8" "digits_value [57] = 9" by (simp_all add: digits_value_def)
  have t: "text_single = [] @ [56] @ [32] @ mon3 @ []"
    by (simp add: text_single_def mon3_def)
  have h3: "is_decimal 56 \<and> is_decimal 56 \<and> ([56] = [56] \<or> [56] = [56, 56::nat]) \<and>
      [32] \<noteq> [] \<and> (\<forall>x \<in> set [32]. is_space x) \<and>
      (\<forall>c \<in> set mon3. is_ru_letter c) \<and> map_of MONTHS_RU (str_lower mon3) = Some 3 \<and>
      (\<forall>c \<in> set ([]::nat list). covered c) \<and>
      (([]::nat list) = [] \<or> (covered (hd []) \<and> \<not> is_word (hd []))) \<and>
      (\<forall>m \<in> set (finditer LISTED_DAYS_RE ([] @ [56] @ [32] @ mon3 @ [])).
          m_start m < length ([]::nat list) \<longrightarrow> m_end m \<le> length ([]::nat list)) \<and>
      valid_ymd 2025 3 (digits_value [56])"
    by (simp add: is_decimal_def is_space_def is_ru_letter_def MONTHS_RU_def mon3_def
          str_lower_def lower_cp_def valid_ymd_def digits_value_def days_in_month_def)
  from T have "\<forall>d1 d2 ds ws mon mo pre post.
      is_decimal d1 \<and> is_decimal d2 \<and> (ds = [d1] \<or> ds = [d1, d2]) \<and>
      ws \<noteq> [] \<and> (\<forall>x \<in> set ws. is_space x) \<and>
      (\<forall>c \<in> set mon. is_ru_letter c) \<and> map_of MONTHS_RU (str_lower mon) = Some mo \<and>
      (\<forall>c \<in> set pre. covered c) \<and>
      (post = [] \<or> (covered (hd post) \<and> \<not> is_word (hd post))) \<and>
      (\<forall>m \<in> set (finditer LISTED_DAYS_RE (pre @ ds @ ws @ mon @ post)).
          m_start m < length pre \<longrightarrow> m_end m \<le> length pre) \<and>
      valid_ymd 2025 mo (digits_value ds)
      \<longrightarrow> (\<exists>ms1 m ms2. finditer LISTED_DAYS_RE (pre @ ds @ ws @ mon @ post) = ms1 @ m # ms2
           \<and> m_start m = length pre
           \<and> m_end m = length pre + length ds + length ws + length mon
           \<and> group (pre @ ds @ ws @ mon @ post) m ''days'' = Some ds
           \<and> group (pre @ ds @ ws @ mon @ post) m ''month'' = Some mon
           \<and> (\<forall>a. list_body 2025 (pre @ ds @ ws @ mon @ post) m a =
                   Inr (insert (Date 2025 mo (digits_value ds)) (fst a),
                        if Date 2025 mo (digits_value ds) \<in> fst a then snd a
                        else snd a @ [list_note ds mon]))
           \<and> (\<forall>a a'. list_stage 2025 (pre @ ds @ ws @ mon @ post) a = Inr a'
                   \<longrightarrow> Date 2025 mo (digits_value ds) \<in> fst a'))"
    by (rule conjunct1[OF conjunct2[OF conjunct2]])
  note G = this[rule_format]
  from G[of 56 56 "[56]" "[32]" mon3 3 "[]" "[]", OF h3]
  have "\<forall>a a'. list_stage 2025 ([] @ [56] @ [32] @ mon3 @ []) a = Inr a'
          \<longrightarrow> Date 2025 3 (digits_value [56]) \<in> fst a'"
    by blast
  then have r: "\<forall>a a'. list_stage 2025 text_single a = Inr a' \<longrightarrow> Date 2025 3 8 \<in> fst a'"
    unfolding t[symmetric] dv .
  have e: "list_stage 2025 text_single ({}, []) =
     Inr ({Date 2025 3 8}, [[1055, 1077, 1088, 1077, 1095, 1077, 1085, 1100, 58, 32, 56, 32, 1084, 1072, 1088, 1090, 1072]])"
    by (rule list_stage_single_example)
  from r[rule_format, OF e] e single_no_trigger
  have w1: "\<exists>a'. list_stage 2025 text_single ({}, []) = Inr a'
     \<and> Date 2025 3 8 \<in> fst a'
     \<and> \<not> in_window (str_lower text_single)" by blast
  have f: "finditer LISTED_DAYS_RE text_two_bare = [M1] @ M2 # []"
    unfolding M1_def M2_def by (simp add: finditer_two_bare)
  have g: "group text_two_bare M2 ''days'' = Some [57]"
          "normalize_month (group text_two_bare M2 ''month'') = Inr (Some 5)"
          "fmt_group (group text_two_bare M2 ''month'') = mon"
    unfolding M2_def mon_def by (rule two_bare_groups)+
  have h1: "group text_two_bare M2 ''days'' = Some [57] \<and> [57] \<noteq> [] \<and>
      (\<forall>c \<in> set [57]. is_decimal c) \<and>
      normalize_month (group text_two_bare M2 ''month'') = Inr (Some 5) \<and>
      valid_ymd 2025 5 (digits_value [57])"
    using g by (simp add: is_decimal_def valid_ymd_def digits_value_def days_in_month_def)
  from U have "\<forall>m a ds mo.
      group text_two_bare m ''days'' = Some ds \<and> ds \<noteq> [] \<and> (\<forall>c \<in> set ds. is_decimal c) \<and>
      normalize_month (group text_two_bare m ''month'') = Inr (Some mo) \<and>
      valid_ymd 2025 mo (digits_value ds)
      \<longrightarrow> list_body 2025 text_two_bare m a =
            Inr (insert (Date 2025 mo (digits_value ds)) (fst a),
                 if Date 2025 mo (digits_value ds) \<in> fst a then snd a
                 else snd a @ [list_note ds (fmt_group (group text_two_bare m ''month''))])"
    by (rule conjunct1)
  note B = this[rule_format, of M2 "[57]" 5, OF h1]
  have ln: "list_note [57] mon = N9"
    by (simp add: list_note_def mon_def N9_def)
  have w2: "list_body 2025 text_two_bare M2 ({Date 2025 5 1}, [N1]) =
       Inr ({Date 2025 5 9, Date 2025 5 1}, [N1, N9])"
    using B[of "({Date 2025 5 1}, [N1])"] unfolding g(3) ln dv by simp
  have s: "list_stage 2025 text_two_bare ({}, []) = Inr ({Date 2025 5 1, Date 2025 5 9}, [N1, N9])"
    unfolding N1_def N9_def by (rule list_stage_two_bare)
  have h2: "finditer LISTED_DAYS_RE text_two_bare = [M1] @ M2 # [] \<and>
      group text_two_bare M2 ''days'' = Some [57] \<and> [57] \<noteq> [] \<and>
      (\<forall>c \<in> set [57]. is_decimal c) \<and>
      normalize_month (group text_two_bare M2 ''month'') = Inr (Some 5) \<and>
      valid_ymd 2025 5 (digits_value [57]) \<and>
      list_stage 2025 text_two_bare ({}, []) = Inr ({Date 2025 5 1, Date 2025 5 9}, [N1, N9])"
    using f h1 s by blast
  from U have "\<forall>ms1 m ms2 a a' ds mo.
      finditer LISTED_DAYS_RE text_two_bare = ms1 @ m # ms2 \<and>
      group text_two_bare m ''days'' = Some ds \<and> ds \<noteq> [] \<and> (\<forall>c \<in> set ds. is_decimal c) \<and>
      normalize_month (group text_two_bare m ''month'') = Inr (Some mo) \<and>
      valid_ymd 2025 mo (digits_value ds) \<and>
      list_stage 2025 text_two_bare a = Inr a'
      \<longrightarrow> (\<exists>b. run_loop (list_body 2025 text_two_bare) ms1 a = Inr b \<and>
               run_loop (list_body 2025 text_two_bare) ms2
                 (insert (Date 2025 mo (digits_value ds)) (fst b),
                  if Date 2025 mo (digits_value ds) \<in> fst b then snd b
                  else snd b @ [list_note ds (fmt_group (group text_two_bare m ''month''))]) = Inr a')
          \<and> Date 2025 mo (digits_value ds) \<in> fst a'"
    by (rule conjunct1[OF conjunct2])
  note S = this[rule_format, of "[M1]" M2 "[]" "[57]" 5 "({}, [])" "({Date 2025 5 1, Date 2025 5 9}, [N1, N9])", OF h2]
  have w3: "\<exists>b. run_loop (list_body 2025 text_two_bare) [M1] ({}, []) = Inr b \<and>
            run_loop (list_body 2025 text_two_bare) []
              (insert (Date 2025 5 9) (fst b),
               if Date 2025 5 9 \<in> fst b then snd b else snd b @ [N9]) =
            Inr ({Date 2025 5 1, Date 2025 5 9}, [N1, N9])"
    using conjunct1[OF S] unfolding g(3) ln dv .
  have tt: "text_two_bare = pre @ [57] @ [9] @ mon @ [46]"
    by (simp add: text_two_bare_def pre_def mon_def)
  have lp: "length pre = 8" "length mon = 3" by (simp_all add: pre_def mon_def)
  have H: "\<forall>m \<in> set (finditer LISTED_DAYS_RE (pre @ [57] @ [9] @ mon @ [46])).
          m_start m < length pre \<longrightarrow> m_end m \<le> length pre"
    unfolding tt[symmetric] by (simp add: finditer_two_bare lp)
  have h3b: "is_decimal 57 \<and> is_decimal 57 \<and> ([57] = [57] \<or> [57] = [57, 57::nat]) \<and>
      [9] \<noteq> [] \<and> (\<forall>x \<in> set [9]. is_space x) \<and>
      (\<forall>c \<in> set mon. is_ru_letter c) \<and> map_of MONTHS_RU (str_lower mon) = Some 5 \<and>
      (\<forall>c \<in> set pre. covered c) \<and>
      ([46] = [] \<or> (covered (hd [46]) \<and> \<not> is_word (hd [46]))) \<and>
      (\<forall>m \<in> set (finditer LISTED_DAYS_RE (pre @ [57] @ [9] @ mon @ [46])).
          m_start m < length pre \<longrightarrow> m_end m \<le> length pre) \<and>
      valid_ymd 2025 5 (digits_value [57])"
  proof (intro conjI)
    show "\<forall>m \<in> set (finditer LISTED_DAYS_RE (pre @ [57] @ [9] @ mon @ [46])).
          m_start m < length pre \<longrightarrow> m_end m \<le> length pre" by (rule H)
  qed (simp_all add: is_decimal_def is_space_def is_ru_letter_def MONTHS_RU_def mon_def pre_def
          covered_def is_word_def is_alnum_def
          str_lower_def lower_cp_def valid_ymd_def digits_value_def days_in_month_def)
  from U have "\<forall>d1 d2 ds ws mon mo pre post.
      is_decimal d1 \<and> is_decimal d2 \<and> (ds = [d1] \<or> ds = [d1, d2]) \<and>
      ws \<noteq> [] \<and> (\<forall>x \<in> set ws. is_space x) \<and>
      (\<forall>c \<in> set mon. is_ru_letter c) \<and> map_of MONTHS_RU (str_lower mon) = Some mo \<and>
      (\<forall>c \<in> set pre. covered c) \<and>
      (post = [] \<or> (covered (hd post) \<and> \<not> is_word (hd post))) \<and>
      (\<forall>m \<in> set (finditer LISTED_DAYS_RE (pre @ ds @ ws @ mon @ post)).
          m_start m < length pre \<longrightarrow> m_end m \<le> length pre) \<and>
      valid_ymd 2025 mo (digits_value ds)
      \<longrightarrow> (\<exists>ms1 m ms2. finditer LISTED_DAYS_RE (pre @ ds @ ws @ mon @ post) = ms1 @ m # ms2
           \<and> m_start m = length pre
           \<and> m_end m = length pre + length ds + length ws + length mon
           \<and> group (pre @ ds @ ws @ mon @ post) m ''days'' = Some ds
           \<and> group (pre @ ds @ ws @ mon @ post) m ''month'' = Some mon
           \<and> (\<forall>a. list_body 2025 (pre @ ds @ ws @ mon @ post) m a =
                   Inr (insert (Date 2025 mo (digits_value ds)) (fst a),
                        if Date 2025 mo (digits_value ds) \<in> fst a then snd a
                        else snd a @ [list_note ds mon]))
           \<and> (\<forall>a a'. list_stage 2025 (pre @ ds @ ws @ mon @ post) a = Inr a'
                   \<longrightarrow> Date 2025 mo (digits_value ds) \<in> fst a'))"
    by (rule conjunct1[OF conjunct2[OF conjunct2]])
  note G2 = this[rule_format]
  from G2[of 57 57 "[57]" "[9]" mon 5 pre "[46]", OF h3b]
  obtain ms1 m ms2 where q:
    "finditer LISTED_DAYS_RE (pre @ [57] @ [9] @ mon @ [46]) = ms1 @ m # ms2"
    "m_start m = length pre"
    "m_end m = length pre + length [57::nat] + length [9::nat] + length mon"
    "group (pre @ [57] @ [9] @ mon @ [46]) m ''days'' = Some [57]"
    "group (pre @ [57] @ [9] @ mon @ [46]) m ''month'' = Some mon"
    "\<forall>a. list_body 2025 (pre @ [57] @ [9] @ mon @ [46]) m a =
                   Inr (insert (Date 2025 5 (digits_value [57])) (fst a),
                        if Date 2025 5 (digits_value [57]) \<in> fst a then snd a
                        else snd a @ [list_note [57] mon])"
    by blast
  have q6: "list_body 2025 text_two_bare m ({}, []) = Inr ({Date 2025 5 9}, [N9])"
    using q(6)[rule_format, of "({}, [])"] unfolding tt[symmetric] ln dv by simp
  have w4: "\<exists>ms1 m ms2. finditer LISTED_DAYS_RE text_two_bare = ms1 @ m # ms2
         \<and> m_start m = 8 \<and> m_end m = 13
         \<and> group text_two_bare m ''days'' = Some [57]
         \<and> group text_two_bare m ''month'' = Some mon
         \<and> list_body 2025 text_two_bare m ({}, []) = Inr ({Date 2025 5 9}, [N9])"
  proof (intro exI conjI)
    show "finditer LISTED_DAYS_RE text_two_bare = ms1 @ m # ms2" using q(1) unfolding tt[symmetric] .
    show "m_start m = 8" using q(2) lp by simp
    show "m_end m = 13" using q(3) lp by simp
    show "group text_two_bare m ''days'' = Some [57]" using q(4) unfolding tt[symmetric] .
    show "group text_two_bare m ''month'' = Some mon" using q(5) unfolding tt[symmetric] .
    show "list_body 2025 text_two_bare m ({}, []) = Inr ({Date 2025 5 9}, [N9])" by (rule q6)
  qed
  define pt :: ustr where "pt = [1087, 1077, 1088, 1077, 1085, 1086, 1089, 32, 1074, 1099, 1093, 1086, 1076, 1085, 1086, 1075, 1086, 32, 1089, 32]"
  define rt :: ustr where "rt = [53, 32, 1103, 1085, 1074, 1072, 1088, 1103, 32, 1085, 1072, 32, 56, 32, 1103, 1085, 1074, 1072, 1088, 1103]"
  define MT where "MT = \<lparr>m_start = 20, m_end = 28, groups = [(''month'', 22, 28), (''days'', 20, 21)]\<rparr>"
  have tr: "text_transfer = pt @ rt" by (simp add: text_transfer_def pt_def rt_def)
  have mt: "MT \<in> set (finditer LISTED_DAYS_RE text_transfer)"
    unfolding MT_def by (simp add: finditer_list_transfer)
  have h4: "(\<forall>c \<in> set pt. covered c \<and> \<not> is_decimal c) \<and>
      MT \<in> set (finditer LISTED_DAYS_RE (pt @ rt))"
    using mt unfolding tr by (simp add: pt_def covered_def is_decimal_def)
  from U have "\<forall>pre rest m.
      (\<forall>c \<in> set pre. covered c \<and> \<not> is_decimal c) \<and>
      m \<in> set (finditer LISTED_DAYS_RE (pre @ rest))
      \<longrightarrow> length pre \<le> m_start m"
    by (rule conjunct1[OF conjunct2[OF conjunct2[OF conjunct2]]])
  note P = this[rule_format, of pt MT rt, OF h4]
  from w1 f w2 w3 w4 mt P show ?thesis
    unfolding M1_def M2_def N1_def N9_def mon_def pt_def MT_def by (intro conjI)
qed

text \<open>
  Claim C10. For every text and every year hint, every date of the returned non-working
  set has the returned year as its year.
\<close>

theorem extract_dates_have_result_year:
  "extract_nonworking_dates today text year_hint = Inr r \<Longrightarrow>
     \<forall>d \<in> nonworking_dates r. year d = pr_year r"
  using extract_dates_sound[of today "text" year_hint r] by blast

theorem extract_dates_have_result_year_witness:
  "\<exists>r. extract_nonworking_dates 2026 text_transfer (Some 2025) = Inr r
     \<and> nonworking_dates r = {Date 2025 1 5, Date 2025 1 8}
     \<and> (\<forall>d \<in> nonworking_dates r. year d = pr_year r)"
proof -
  let ?r = "\<lparr>pr_year = 2025, nonworking_dates = {Date 2025 1 5, Date 2025 1 8},
          pr_notes = [[1055, 1077, 1088, 1077, 1095, 1077, 1085, 1100, 58, 32, 53, 32, 1103, 1085, 1074, 1072, 1088, 1103],
                      [1055, 1077, 1088, 1077, 1095, 1077, 1085, 1100, 58, 32, 56, 32, 1103, 1085, 1074, 1072, 1088, 1103],
                      [1055, 1077, 1088, 1077, 1085, 1086, 1089, 32, 1085, 1072, 58, 32, 56, 32, 1103, 1085, 1074, 1072, 1088, 1103]]\<rparr>"
  have e: "extract_nonworking_dates 2026 text_transfer (Some 2025) = Inr ?r"
    by (rule extract_transfer_example)
  from extract_dates_have_result_year[OF e]
  have "\<forall>d \<in> nonworking_dates ?r. year d = pr_year ?r" .
  with e show ?thesis by (intro exI[of _ ?r]) simp
qed

end
